theory Spec2Isabelle
  imports Main "HOL-Library.Finite_Map"
begin

section \<open>Go strings, as byte lists\<close>

text \<open>
  A Go \<^verbatim>\<open>string\<close> is a sequence of bytes, and so is \<^typ>\<open>string\<close> here. The functions of
  package \<^verbatim>\<open>strings\<close> that \<^verbatim>\<open>crawler.go\<close> and \<^verbatim>\<open>net/url\<close> call are written out for the
  arguments they are called with (single ASCII bytes as separators and cut sets).
\<close>

definition byte :: "char \<Rightarrow> nat" where
  "byte c = of_char c"

definition isAlpha :: "char \<Rightarrow> bool" where
  "isAlpha c = ((byte (CHR ''a'') \<le> byte c \<and> byte c \<le> byte (CHR ''z'')) \<or>
                (byte (CHR ''A'') \<le> byte c \<and> byte c \<le> byte (CHR ''Z'')))"

definition isDigit :: "char \<Rightarrow> bool" where
  "isDigit c = (byte (CHR ''0'') \<le> byte c \<and> byte c \<le> byte (CHR ''9''))"

definition HasPrefix :: "string \<Rightarrow> string \<Rightarrow> bool" where
  "HasPrefix s p = (take (length p) s = p)"

definition HasSuffix :: "string \<Rightarrow> string \<Rightarrow> bool" where
  "HasSuffix s p = (length p \<le> length s \<and> drop (length s - length p) s = p)"

definition Contains :: "string \<Rightarrow> char \<Rightarrow> bool" where
  "Contains s c = (c \<in> set s)"

definition Count :: "string \<Rightarrow> char \<Rightarrow> nat" where
  "Count s c = length (filter (\<lambda>d. d = c) s)"

text \<open>\<^verbatim>\<open>strings.Cut(s, sep)\<close>: the text before and after the first \<^verbatim>\<open>sep\<close>; all of \<^verbatim>\<open>s\<close> and
  the empty string when \<^verbatim>\<open>sep\<close> does not occur.\<close>

definition Cut :: "string \<Rightarrow> char \<Rightarrow> string \<times> string" where
  "Cut s c = (takeWhile (\<lambda>d. d \<noteq> c) s, drop 1 (dropWhile (\<lambda>d. d \<noteq> c) s))"

text \<open>\<^verbatim>\<open>strings.Index\<close> and \<^verbatim>\<open>strings.LastIndex\<close>; \<open>None\<close> is Go's \<^verbatim>\<open>-1\<close>.\<close>

fun Index :: "string \<Rightarrow> string \<Rightarrow> nat option" where
  "Index [] p = (if p = [] then Some 0 else None)"
| "Index (c # s) p =
     (if HasPrefix (c # s) p then Some 0
      else (case Index s p of None \<Rightarrow> None | Some i \<Rightarrow> Some (Suc i)))"

fun LastIndex :: "string \<Rightarrow> char \<Rightarrow> nat option" where
  "LastIndex [] c = None"
| "LastIndex (d # s) c =
     (case LastIndex s c of
        Some i \<Rightarrow> Some (Suc i)
      | None \<Rightarrow> (if d = c then Some 0 else None))"

text \<open>\<^verbatim>\<open>strings.TrimRight(s, cutset)\<close> removes every trailing byte that is in the cut set.\<close>

definition TrimRight :: "string \<Rightarrow> string \<Rightarrow> string" where
  "TrimRight s cutset = rev (dropWhile (\<lambda>c. c \<in> set cutset) (rev s))"

text \<open>\<^verbatim>\<open>strings.ToLower\<close> on ASCII text (it is applied to a scheme, which \<^verbatim>\<open>getScheme\<close>
  restricts to ASCII letters, digits and \<^verbatim>\<open>+-.\<close>).\<close>

definition lowerByte :: "char \<Rightarrow> char" where
  "lowerByte c =
     (if byte (CHR ''A'') \<le> byte c \<and> byte c \<le> byte (CHR ''Z'') then char_of (byte c + 32) else c)"

definition ToLower :: "string \<Rightarrow> string" where
  "ToLower s = map lowerByte s"

section \<open>Package net/url of the Go standard library\<close>

text \<open>
  \<^verbatim>\<open>normalizeURL\<close> calls \<^verbatim>\<open>url.Parse\<close> and \<^verbatim>\<open>(*URL).String\<close>. Both belong to the Go
  standard library (the repository requires Go 1.22 or later); they are written out here
  after the library's source, function by function and under the library's names.
\<close>

record Userinfo =
  username :: string
  password :: string
  passwordSet :: bool

record URL =
  Scheme :: string
  Opaque :: string
  User :: "Userinfo option"
  Host :: string
  Path :: string
  RawPath :: string
  OmitHost :: bool
  ForceQuery :: bool
  RawQuery :: string
  Fragment :: string
  RawFragment :: string

datatype url_error =
    InvalidControlCharacter
  | MissingProtocolScheme
  | EscapeError string
  | InvalidHostError string
  | FirstPathSegmentColon
  | MissingBracket
  | InvalidPort string
  | InvalidUserinfo

datatype encoding =
    encodePath
  | encodePathSegment
  | encodeHost
  | encodeZone
  | encodeUserPassword
  | encodeQueryComponent
  | encodeFragment

definition emptyURL :: URL where
  "emptyURL = \<lparr>Scheme = [], Opaque = [], User = None, Host = [], Path = [], RawPath = [],
     OmitHost = False, ForceQuery = False, RawQuery = [], Fragment = [], RawFragment = []\<rparr>"

definition ishex :: "char \<Rightarrow> bool" where
  "ishex c = (isDigit c \<or>
     (byte (CHR ''a'') \<le> byte c \<and> byte c \<le> byte (CHR ''f'')) \<or>
     (byte (CHR ''A'') \<le> byte c \<and> byte c \<le> byte (CHR ''F'')))"

definition unhex :: "char \<Rightarrow> nat" where
  "unhex c =
     (if isDigit c then byte c - byte (CHR ''0'')
      else if byte (CHR ''a'') \<le> byte c \<and> byte c \<le> byte (CHR ''f'') then byte c - byte (CHR ''a'') + 10
      else if byte (CHR ''A'') \<le> byte c \<and> byte c \<le> byte (CHR ''F'') then byte c - byte (CHR ''A'') + 10
      else 0)"

definition upperhex :: string where
  "upperhex = ''0123456789ABCDEF''"

definition hostSubDelims :: string where
  "hostSubDelims = ''!$&()*+,;=:[]<>'' @ [CHR 0x27, CHR 0x22]"

definition shouldEscape :: "char \<Rightarrow> encoding \<Rightarrow> bool" where
  "shouldEscape c mode =
     (if isAlpha c \<or> isDigit c then False
      else if (mode = encodeHost \<or> mode = encodeZone) \<and> c \<in> set hostSubDelims then False
      else if c \<in> set ''-_.~'' then False
      else if c \<in> set ''$&+,/:;=?@'' \<and> mode = encodePath then c = CHR ''?''
      else if c \<in> set ''$&+,/:;=?@'' \<and> mode = encodePathSegment then c \<in> set ''/;,?''
      else if c \<in> set ''$&+,/:;=?@'' \<and> mode = encodeUserPassword then c \<in> set ''@/?:''
      else if c \<in> set ''$&+,/:;=?@'' \<and> mode = encodeQueryComponent then True
      else if c \<in> set ''$&+,/:;=?@'' \<and> mode = encodeFragment then False
      else if mode = encodeFragment \<and> c \<in> set ''!()*'' then False
      else True)"

definition escapedByte :: "char \<Rightarrow> string" where
  "escapedByte c = [CHR ''%'', upperhex ! (byte c div 16), upperhex ! (byte c mod 16)]"

fun escape :: "string \<Rightarrow> encoding \<Rightarrow> string" where
  "escape [] mode = []"
| "escape (c # s) mode =
     (if shouldEscape c mode then
        (if c = CHR '' '' \<and> mode = encodeQueryComponent then CHR ''+'' # escape s mode
         else escapedByte c @ escape s mode)
      else c # escape s mode)"

text \<open>\<^verbatim>\<open>unescape\<close> checks the escapes from left to right and fails at the first bad one; the
  recursion meets them in the same order.\<close>

fun unescape :: "string \<Rightarrow> encoding \<Rightarrow> url_error + string" where
  "unescape [] mode = Inr []"
| "unescape (c # s) mode =
     (if c = CHR ''%'' then
        (if length s < 2 \<or> \<not> ishex (s ! 0) \<or> \<not> ishex (s ! 1) then Inl (EscapeError (take 3 (c # s)))
         else if mode = encodeHost \<and> unhex (s ! 0) < 8 \<and> take 3 (c # s) \<noteq> ''%25''
           then Inl (EscapeError (take 3 (c # s)))
         else if mode = encodeZone \<and> take 3 (c # s) \<noteq> ''%25''
                 \<and> char_of (unhex (s ! 0) * 16 + unhex (s ! 1)) \<noteq> CHR '' ''
                 \<and> shouldEscape (char_of (unhex (s ! 0) * 16 + unhex (s ! 1))) encodeHost
           then Inl (EscapeError (take 3 (c # s)))
         else (case unescape (drop 2 s) mode of
                 Inl e \<Rightarrow> Inl e
               | Inr t \<Rightarrow> Inr (char_of (unhex (s ! 0) * 16 + unhex (s ! 1)) # t)))
      else if c = CHR ''+'' then
        (case unescape s mode of
           Inl e \<Rightarrow> Inl e
         | Inr t \<Rightarrow> Inr ((if mode = encodeQueryComponent then CHR '' '' else CHR ''+'') # t))
      else if (mode = encodeHost \<or> mode = encodeZone) \<and> byte c < 0x80 \<and> shouldEscape c encodeHost
        then Inl (InvalidHostError [c])
      else (case unescape s mode of Inl e \<Rightarrow> Inl e | Inr t \<Rightarrow> Inr (c # t)))"

definition validEncodedByte :: "char \<Rightarrow> encoding \<Rightarrow> bool" where
  "validEncodedByte c mode =
     (if c \<in> set (''!$&()*+,;=:@'' @ [CHR 0x27]) then True
      else if c \<in> set ''[]'' then True
      else if c = CHR ''%'' then True
      else \<not> shouldEscape c mode)"

definition validEncoded :: "string \<Rightarrow> encoding \<Rightarrow> bool" where
  "validEncoded s mode = list_all (\<lambda>c. validEncodedByte c mode) s"

definition stringContainsCTLByte :: "string \<Rightarrow> bool" where
  "stringContainsCTLByte s = list_ex (\<lambda>c. byte c < byte (CHR '' '') \<or> byte c = 0x7f) s"

text \<open>\<^verbatim>\<open>getScheme\<close>: the scheme and the rest, \<open>acc\<close> holding the bytes read so far.\<close>

fun getSchemeFrom :: "string \<Rightarrow> string \<Rightarrow> string \<Rightarrow> url_error + (string \<times> string)" where
  "getSchemeFrom rawURL acc [] = Inr ([], rawURL)"
| "getSchemeFrom rawURL acc (c # s) =
     (if isAlpha c then getSchemeFrom rawURL (acc @ [c]) s
      else if isDigit c \<or> c \<in> set ''+-.'' then
        (if acc = [] then Inr ([], rawURL) else getSchemeFrom rawURL (acc @ [c]) s)
      else if c = CHR '':'' then
        (if acc = [] then Inl MissingProtocolScheme else Inr (acc, s))
      else Inr ([], rawURL))"

definition getScheme :: "string \<Rightarrow> url_error + (string \<times> string)" where
  "getScheme rawURL = getSchemeFrom rawURL [] rawURL"

definition validOptionalPort :: "string \<Rightarrow> bool" where
  "validOptionalPort port =
     (case port of
        [] \<Rightarrow> True
      | c # ds \<Rightarrow> c = CHR '':'' \<and> list_all isDigit ds)"

definition validUserinfoByte :: "char \<Rightarrow> bool" where
  "validUserinfoByte c =
     (isAlpha c \<or> isDigit c \<or> c \<in> set (''-._:~!$&()*+,;=%@'' @ [CHR 0x27]))"

definition validUserinfo :: "string \<Rightarrow> bool" where
  "validUserinfo s = list_all validUserinfoByte s"

definition parseHost :: "string \<Rightarrow> url_error + string" where
  "parseHost host =
     (if HasPrefix host ''['' then
        (case LastIndex host (CHR '']'') of
           None \<Rightarrow> Inl MissingBracket
         | Some i \<Rightarrow>
             if \<not> validOptionalPort (drop (i + 1) host) then Inl (InvalidPort (drop (i + 1) host))
             else (case Index (take i host) ''%25'' of
                     Some zone \<Rightarrow>
                       (case unescape (take zone host) encodeHost of
                          Inl e \<Rightarrow> Inl e
                        | Inr host1 \<Rightarrow>
                            (case unescape (drop zone (take i host)) encodeZone of
                               Inl e \<Rightarrow> Inl e
                             | Inr host2 \<Rightarrow>
                                 (case unescape (drop i host) encodeHost of
                                    Inl e \<Rightarrow> Inl e
                                  | Inr host3 \<Rightarrow> Inr (host1 @ host2 @ host3))))
                   | None \<Rightarrow> unescape host encodeHost))
      else
        (case LastIndex host (CHR '':'') of
           Some i \<Rightarrow>
             if \<not> validOptionalPort (drop i host) then Inl (InvalidPort (drop i host))
             else unescape host encodeHost
         | None \<Rightarrow> unescape host encodeHost))"

definition parseUserinfo :: "string \<Rightarrow> url_error + Userinfo" where
  "parseUserinfo userinfo =
     (if \<not> validUserinfo userinfo then Inl InvalidUserinfo
      else if \<not> Contains userinfo (CHR '':'') then
        (case unescape userinfo encodeUserPassword of
           Inl e \<Rightarrow> Inl e
         | Inr u \<Rightarrow> Inr \<lparr>username = u, password = [], passwordSet = False\<rparr>)
      else
        (case unescape (fst (Cut userinfo (CHR '':''))) encodeUserPassword of
           Inl e \<Rightarrow> Inl e
         | Inr u \<Rightarrow>
             (case unescape (snd (Cut userinfo (CHR '':''))) encodeUserPassword of
                Inl e \<Rightarrow> Inl e
              | Inr p \<Rightarrow> Inr \<lparr>username = u, password = p, passwordSet = True\<rparr>)))"

definition parseAuthority :: "string \<Rightarrow> url_error + (Userinfo option \<times> string)" where
  "parseAuthority authority =
     (case LastIndex authority (CHR ''@'') of
        None \<Rightarrow>
          (case parseHost authority of Inl e \<Rightarrow> Inl e | Inr h \<Rightarrow> Inr (None, h))
      | Some i \<Rightarrow>
          (case parseHost (drop (i + 1) authority) of
             Inl e \<Rightarrow> Inl e
           | Inr h \<Rightarrow>
               (case parseUserinfo (take i authority) of
                  Inl e \<Rightarrow> Inl e
                | Inr u \<Rightarrow> Inr (Some u, h))))"

definition setPath :: "URL \<Rightarrow> string \<Rightarrow> url_error + URL" where
  "setPath u p =
     (case unescape p encodePath of
        Inl e \<Rightarrow> Inl e
      | Inr path \<Rightarrow>
          Inr (u\<lparr>Path := path, RawPath := (if p = escape path encodePath then [] else p)\<rparr>))"

definition setFragment :: "URL \<Rightarrow> string \<Rightarrow> url_error + URL" where
  "setFragment u f =
     (case unescape f encodeFragment of
        Inl e \<Rightarrow> Inl e
      | Inr frag \<Rightarrow>
          Inr (u\<lparr>Fragment := frag,
                 RawFragment := (if f = escape frag encodeFragment then [] else f)\<rparr>))"

text \<open>The unexported \<^verbatim>\<open>parse(rawURL, viaRequest)\<close> at \<^verbatim>\<open>viaRequest = false\<close>, the only way
  \<^verbatim>\<open>url.Parse\<close> calls it.\<close>

definition parse :: "string \<Rightarrow> url_error + URL" where
  "parse rawURL =
     (if stringContainsCTLByte rawURL then Inl InvalidControlCharacter
      else if rawURL = ''*'' then Inr (emptyURL\<lparr>Path := ''*''\<rparr>)
      else
        (case getScheme rawURL of
           Inl e \<Rightarrow> Inl e
         | Inr (scheme, rest0) \<Rightarrow>
             let force = (HasSuffix rest0 ''?'' \<and> Count rest0 (CHR ''?'') = 1);
                 rest = (if force then butlast rest0 else fst (Cut rest0 (CHR ''?'')));
                 u = emptyURL\<lparr>Scheme := ToLower scheme, ForceQuery := force,
                       RawQuery := (if force then [] else snd (Cut rest0 (CHR ''?'')))\<rparr>
             in
               if \<not> HasPrefix rest ''/'' \<and> Scheme u \<noteq> [] then Inr (u\<lparr>Opaque := rest\<rparr>)
               else if \<not> HasPrefix rest ''/'' \<and> Contains (fst (Cut rest (CHR ''/''))) (CHR '':'')
                 then Inl FirstPathSegmentColon
               else if (Scheme u \<noteq> [] \<or> \<not> HasPrefix rest ''///'') \<and> HasPrefix rest ''//'' then
                 (let rest2 = drop 2 rest;
                      authority = takeWhile (\<lambda>c. c \<noteq> CHR ''/'') rest2;
                      rest3 = dropWhile (\<lambda>c. c \<noteq> CHR ''/'') rest2
                  in case parseAuthority authority of
                       Inl e \<Rightarrow> Inl e
                     | Inr (user, host) \<Rightarrow> setPath (u\<lparr>User := user, Host := host\<rparr>) rest3)
               else if Scheme u \<noteq> [] \<and> HasPrefix rest ''/'' then
                 setPath (u\<lparr>OmitHost := True\<rparr>) rest
               else setPath u rest))"

text \<open>\<^verbatim>\<open>url.Parse\<close>: the fragment is cut off at the first \<^verbatim>\<open>#\<close> and set last.\<close>

definition Parse :: "string \<Rightarrow> url_error + URL" where
  "Parse rawURL =
     (case parse (fst (Cut rawURL (CHR ''#''))) of
        Inl e \<Rightarrow> Inl e
      | Inr u \<Rightarrow>
          if snd (Cut rawURL (CHR ''#'')) = [] then Inr u
          else setFragment u (snd (Cut rawURL (CHR ''#''))))"

definition EscapedPath :: "URL \<Rightarrow> string" where
  "EscapedPath u =
     (if RawPath u \<noteq> [] \<and> validEncoded (RawPath u) encodePath
         \<and> unescape (RawPath u) encodePath = Inr (Path u) then RawPath u
      else if Path u = ''*'' then ''*''
      else escape (Path u) encodePath)"

definition EscapedFragment :: "URL \<Rightarrow> string" where
  "EscapedFragment u =
     (if RawFragment u \<noteq> [] \<and> validEncoded (RawFragment u) encodeFragment
         \<and> unescape (RawFragment u) encodeFragment = Inr (Fragment u) then RawFragment u
      else escape (Fragment u) encodeFragment)"

definition Userinfo_String :: "Userinfo \<Rightarrow> string" where
  "Userinfo_String ui =
     escape (username ui) encodeUserPassword
       @ (if passwordSet ui then '':'' @ escape (password ui) encodeUserPassword else [])"

text \<open>\<^verbatim>\<open>(*URL).String\<close>, the buffer written piece by piece: scheme, then the opaque part or
  authority and path, then query and fragment.\<close>

definition String_authority :: "URL \<Rightarrow> string" where
  "String_authority u =
     (if Scheme u \<noteq> [] \<or> Host u \<noteq> [] \<or> User u \<noteq> None then
        (if OmitHost u \<and> Host u = [] \<and> User u = None then []
         else
           (if Host u \<noteq> [] \<or> Path u \<noteq> [] \<or> User u \<noteq> None then ''//'' else [])
           @ (case User u of None \<Rightarrow> [] | Some ui \<Rightarrow> Userinfo_String ui @ ''@'')
           @ (if Host u \<noteq> [] then escape (Host u) encodeHost else []))
      else [])"

definition String_path :: "URL \<Rightarrow> string \<Rightarrow> string" where
  "String_path u buf =
     (let path = EscapedPath u;
          buf1 = (if path \<noteq> [] \<and> hd path \<noteq> CHR ''/'' \<and> Host u \<noteq> [] then buf @ ''/'' else buf);
          buf2 = (if buf1 = [] \<and> Contains (fst (Cut path (CHR ''/''))) (CHR '':'')
                  then buf1 @ ''./'' else buf1)
      in buf2 @ path)"

definition URL_String :: "URL \<Rightarrow> string" where
  "URL_String u =
     (let buf0 = (if Scheme u \<noteq> [] then Scheme u @ '':'' else []);
          buf1 = (if Opaque u \<noteq> [] then buf0 @ Opaque u
                  else String_path u (buf0 @ String_authority u));
          buf2 = (if ForceQuery u \<or> RawQuery u \<noteq> [] then buf1 @ ''?'' @ RawQuery u else buf1)
      in if Fragment u \<noteq> [] then buf2 @ ''#'' @ EscapedFragment u else buf2)"

section \<open>The URL normalizer (crawler.go)\<close>

definition normalizeURL :: "string \<Rightarrow> string" where
  "normalizeURL rawURL =
     (case Parse rawURL of
        Inl err \<Rightarrow> []
      | Inr parsed \<Rightarrow>
          if Scheme parsed \<noteq> ''http'' \<and> Scheme parsed \<noteq> ''https'' then []
          else
            let parsed1 = parsed\<lparr>Fragment := []\<rparr>;
                parsed2 = parsed1\<lparr>Path := TrimRight (Path parsed1) ''/''\<rparr>;
                parsed3 = (if Path parsed2 = [] then parsed2\<lparr>Path := ''/''\<rparr> else parsed2)
            in URL_String parsed3)"

section \<open>The public data types (package plugin)\<close>

text \<open>
  The structs of package \<^verbatim>\<open>plugin\<close>, field by field. A field name that several structs
  use carries a suffix (\<open>_req\<close>, \<open>_page\<close>, \<open>_ev\<close>, \<open>_sum\<close>, \<open>_ext\<close>). A \<^verbatim>\<open>time.Time\<close> and a
  \<^verbatim>\<open>time.Duration\<close> are integers (nanoseconds), a Go \<^verbatim>\<open>int\<close> is an \<^typ>\<open>int\<close> (no
  counter of a crawl comes near 64 bits), a Go map is a finite map, and an \<^verbatim>\<open>error\<close> is
  its message. \<^verbatim>\<open>CrawlStats.PagesPerSec\<close> is a \<^verbatim>\<open>float64\<close> that nothing reads back; it
  is left out.
\<close>

record InterceptedRequest =
  URL_req :: string
  Method :: string
  ContentType_req :: string
  ResourceType :: string

record PageData =
  URL_page :: string
  FinalURL :: string
  StatusCode :: int
  Headers :: "(string \<times> string list) list"
  RawHTML :: string
  RenderedHTML :: string
  ContentType :: string
  FetchedAt :: int
  FetchDuration :: int
  FetcherUsed :: string
  InterceptedReqs :: "InterceptedRequest list"
  Error_page :: string
  Depth :: int
  ResponseSize :: int
  Technologies :: "string list"

record ExtractedItem =
  Type :: string
  Value :: string
  SourceURL :: string
  Metadata :: "(string, string) fmap"

record CrawlResult =
  Page :: PageData
  ExtractedItems :: "ExtractedItem list"

record CrawlSummary =
  TargetURL_sum :: string
  StartedAt :: int
  FinishedAt :: int
  Duration :: int
  TotalPages :: int
  TotalErrors :: int
  TotalItems :: int
  ItemsByType_sum :: "(string, int) fmap"
  Results :: "CrawlResult list"

datatype EventType =
    EventPageQueued
  | EventPageStarted
  | EventPageDone
  | EventPageError
  | EventExtractionDone
  | EventCrawlStarted
  | EventCrawlFinished
  | EventProgress

record CrawlStats =
  PagesQueued :: int
  PagesCrawled :: int
  PagesErrored :: int
  ItemsExtracted :: int
  ItemsByType :: "(string, int) fmap"
  Elapsed :: int

record CrawlEvent =
  Type_ev :: EventType
  URL_ev :: string
  Result_ev :: "CrawlResult option"
  Error_ev :: "string option"
  Stats_ev :: "CrawlStats option"
  Message_ev :: string

text \<open>The interfaces: a fetcher and an extractor are their name and their one method, a
  function of the arguments (\<open>Inl\<close> is the returned error). A result sink is what it has
  been handed so far, and the error its \<^verbatim>\<open>Finalize\<close> returns.\<close>

record Fetcher =
  Name :: string
  Fetch :: "string \<Rightarrow> int \<Rightarrow> string + PageData"

record Extractor =
  Name_ext :: string
  Extract :: "PageData \<Rightarrow> string + ExtractedItem list"

record OutputWriter =
  written :: "CrawlResult list"
  finalized :: "CrawlSummary list"
  Finalize_error :: "string option"

definition WriteResult :: "OutputWriter \<Rightarrow> CrawlResult \<Rightarrow> OutputWriter" where
  "WriteResult w result = w\<lparr>written := written w @ [result]\<rparr>"

definition Finalize :: "OutputWriter \<Rightarrow> CrawlSummary \<Rightarrow> OutputWriter \<times> string option" where
  "Finalize w summary = (w\<lparr>finalized := finalized w @ [summary]\<rparr>, Finalize_error w)"

text \<open>A Go map read at a missing key gives the zero value of its element type.\<close>

definition lookupBool :: "(string, bool) fmap \<Rightarrow> string \<Rightarrow> bool" where
  "lookupBool m k = (case fmlookup m k of None \<Rightarrow> False | Some b \<Rightarrow> b)"

definition lookupInt :: "(string, int) fmap \<Rightarrow> string \<Rightarrow> int" where
  "lookupInt m k = (case fmlookup m k of None \<Rightarrow> 0 | Some n \<Rightarrow> n)"

definition lookupString :: "(string, string) fmap \<Rightarrow> string \<Rightarrow> string" where
  "lookupString m k = (case fmlookup m k of None \<Rightarrow> [] | Some v \<Rightarrow> v)"

definition len :: "('k, 'v) fmap \<Rightarrow> int" where
  "len m = int (fcard (fmdom m))"

section \<open>The extractor registry (package extractor)\<close>

text \<open>\<^verbatim>\<open>Registry.ExtractAll\<close>: every extractor in registration order; one that fails is
  skipped. \<open>allItems\<close> is the loop's accumulator.\<close>

fun ExtractAll_loop :: "ExtractedItem list \<Rightarrow> Extractor list \<Rightarrow> PageData \<Rightarrow> ExtractedItem list" where
  "ExtractAll_loop allItems [] page = allItems"
| "ExtractAll_loop allItems (ext # exts) page =
     (case Extract ext page of
        Inl err \<Rightarrow> ExtractAll_loop allItems exts page
      | Inr items \<Rightarrow> ExtractAll_loop (allItems @ items) exts page)"

definition ExtractAll :: "Extractor list \<Rightarrow> PageData \<Rightarrow> ExtractedItem list" where
  "ExtractAll r page = ExtractAll_loop [] r page"

section \<open>The crawl configuration\<close>

type_synonym FetcherMode = string

definition FetcherHTTP :: FetcherMode where
  "FetcherHTTP = ''http''"

definition FetcherBrowser :: FetcherMode where
  "FetcherBrowser = ''browser''"

definition FetcherAuto :: FetcherMode where
  "FetcherAuto = ''auto''"

text \<open>The fields of \<^verbatim>\<open>CrawlConfig\<close> that package \<^verbatim>\<open>crawler\<close> reads itself, and
  \<^verbatim>\<open>CrawlDuration\<close> and \<^verbatim>\<open>Strategy\<close>, which the command line sets. The remaining fields
  are only handed to the constructors of the fetchers.\<close>

record CrawlConfig =
  TargetURL :: string
  MaxDepth :: int
  MaxPages :: int
  Parallelism :: int
  RateLimit :: int
  CrawlDuration :: int
  Strategy :: string
  AllowExternal :: bool
  FetcherMode :: FetcherMode
  SaveOutput :: bool
  OutputPath :: string

section \<open>The crawler (crawler.go)\<close>

record queueItem =
  url :: string
  depth :: int

text \<open>
  The struct \<^verbatim>\<open>Crawler\<close>, after \<^verbatim>\<open>New\<close> and \<^verbatim>\<open>Init\<close>. The channel \<^verbatim>\<open>events\<close> is the list
  of events sent and not yet received, and whether it has been closed. Three fields are
  histories of calls that leave the process: \<open>emitted\<close> holds every event handed
  to \<^verbatim>\<open>emit\<close>, delivered or dropped; \<open>fetched\<close> holds every call of a fetcher's
  \<^verbatim>\<open>Fetch\<close> (the fetcher's name, the URL and the depth); the writer holds what it was handed.
  The mutexes do not appear: every function below is one critical section or a sequence
  of them run without interruption, and the scheduler of the last section interleaves
  the goroutines between them.
\<close>

record Crawler =
  config :: CrawlConfig
  httpFetch :: Fetcher
  browFetch :: "Fetcher option"
  extractors :: "Extractor list"
  writer :: "OutputWriter option"
  events :: "CrawlEvent list"
  events_closed :: bool
  visited :: "(string, bool) fmap"
  queue :: "queueItem list"
  stats :: CrawlStats
  startTime :: int
  stopped :: bool
  emitted :: "CrawlEvent list"
  fetched :: "(string \<times> string \<times> int) list"

definition event :: "EventType \<Rightarrow> string \<Rightarrow> CrawlEvent" where
  "event t u = \<lparr>Type_ev = t, URL_ev = u, Result_ev = None, Error_ev = None, Stats_ev = None,
     Message_ev = []\<rparr>"

text \<open>\<^verbatim>\<open>emit\<close>: a send that does not block. The channel holds 1000 events; an event that
  finds it full is dropped.\<close>

definition emit :: "Crawler \<Rightarrow> CrawlEvent \<Rightarrow> Crawler" where
  "emit c ev =
     c\<lparr>events := (if length (events c) < 1000 then events c @ [ev] else events c),
       emitted := emitted c @ [ev]\<rparr>"

text \<open>\<^verbatim>\<open>getStats\<close> returns a copy of the statistics; a value is its own copy.\<close>

definition getStats :: "Crawler \<Rightarrow> CrawlStats" where
  "getStats c = stats c"

definition Stop :: "Crawler \<Rightarrow> Crawler" where
  "Stop c = c\<lparr>stopped := True\<rparr>"

definition isStopped :: "Crawler \<Rightarrow> bool" where
  "isStopped c = stopped c"

definition enqueue :: "Crawler \<Rightarrow> string \<Rightarrow> int \<Rightarrow> Crawler" where
  "enqueue c rawURL d =
     (let normalized = normalizeURL rawURL in
      if normalized = [] then c
      else if lookupBool (visited c) normalized then c
      else if len (visited c) \<ge> MaxPages (config c) then c
      else
        let c1 = c\<lparr>visited := fmupd normalized True (visited c)\<rparr>;
            c2 = c1\<lparr>queue := queue c1 @ [\<lparr>url = normalized, depth = d\<rparr>]\<rparr>;
            c3 = c2\<lparr>stats := (stats c2)\<lparr>PagesQueued := PagesQueued (stats c2) + 1\<rparr>\<rparr>
        in emit c3 (event EventPageQueued normalized))"

definition dequeue :: "Crawler \<Rightarrow> queueItem option \<times> Crawler" where
  "dequeue c =
     (case queue c of
        [] \<Rightarrow> (None, c)
      | item # rest \<Rightarrow> (Some item, c\<lparr>queue := rest\<rparr>))"

definition chooseFetcher :: "Crawler \<Rightarrow> string \<Rightarrow> Fetcher" where
  "chooseFetcher c targetURL =
     (if FetcherMode (config c) = FetcherHTTP then httpFetch c
      else if FetcherMode (config c) = FetcherBrowser then
        (case browFetch c of Some b \<Rightarrow> b | None \<Rightarrow> httpFetch c)
      else if FetcherMode (config c) = FetcherAuto then
        (case browFetch c of
           Some b \<Rightarrow> if PagesCrawled (stats c) = 0 then b else httpFetch c
         | None \<Rightarrow> httpFetch c)
      else httpFetch c)"

text \<open>The loop over the extracted items that counts them by type.\<close>

fun countByType :: "(string, int) fmap \<Rightarrow> ExtractedItem list \<Rightarrow> (string, int) fmap" where
  "countByType m [] = m"
| "countByType m (item # items) = countByType (fmupd (Type item) (lookupInt m (Type item) + 1) m) items"

text \<open>The loop at the end of \<^verbatim>\<open>processURL\<close> that enqueues the links of a page found at
  depth \<open>d\<close>.\<close>

fun enqueueLinks :: "Crawler \<Rightarrow> ExtractedItem list \<Rightarrow> int \<Rightarrow> Crawler" where
  "enqueueLinks c [] d = c"
| "enqueueLinks c (extracted # items) d =
     enqueueLinks
       (if Type extracted = ''link'' then
          (if lookupString (Metadata extracted) ''link_type'' = ''internal'' \<or> AllowExternal (config c)
           then enqueue c (Value extracted) (d + 1) else c)
        else c)
       items d"

text \<open>
  \<^verbatim>\<open>processURL\<close> in two parts, split where the goroutine waits for the network: up to the
  call of \<^verbatim>\<open>Fetch\<close>, and from its return. \<open>now\<close> is the clock that \<^verbatim>\<open>time.Since\<close> reads
  when the statistics are updated.
\<close>

definition processURL_call :: "Crawler \<Rightarrow> queueItem \<Rightarrow> Crawler \<times> Fetcher" where
  "processURL_call c item =
     (let c1 = emit c (event EventPageStarted (url item));
          fetchr = chooseFetcher c1 (url item)
      in (c1\<lparr>fetched := fetched c1 @ [(Name fetchr, url item, depth item)]\<rparr>, fetchr))"

definition processURL_return :: "Crawler \<Rightarrow> queueItem \<Rightarrow> Fetcher \<Rightarrow> int \<Rightarrow> Crawler" where
  "processURL_return c item fetchr now =
     (case Fetch fetchr (url item) (depth item) of
        Inl err \<Rightarrow>
          emit (c\<lparr>stats := (stats c)\<lparr>PagesErrored := PagesErrored (stats c) + 1\<rparr>\<rparr>)
            ((event EventPageError (url item))
               \<lparr>Error_ev := Some err,
                Message_ev := ''Error fetching '' @ url item @ '': '' @ err\<rparr>)
      | Inr pageData \<Rightarrow>
          let items = ExtractAll (extractors c) pageData;
              result = \<lparr>Page = pageData, ExtractedItems = items\<rparr>;
              c1 = (case writer c of
                      None \<Rightarrow> c
                    | Some w \<Rightarrow> c\<lparr>writer := Some (WriteResult w result)\<rparr>);
              c2 = c1\<lparr>stats := (stats c1)
                     \<lparr>PagesCrawled := PagesCrawled (stats c1) + 1,
                      ItemsExtracted := ItemsExtracted (stats c1) + int (length items),
                      ItemsByType := countByType (ItemsByType (stats c1)) items,
                      Elapsed := now - startTime c1\<rparr>\<rparr>;
              c3 = emit c2 ((event EventPageDone (url item))
                     \<lparr>Result_ev := Some result, Stats_ev := Some (getStats c2)\<rparr>)
          in if depth item < MaxDepth (config c3) then enqueueLinks c3 items (depth item) else c3)"

definition processURL :: "Crawler \<Rightarrow> queueItem \<Rightarrow> int \<Rightarrow> Crawler" where
  "processURL c item now =
     (case processURL_call c item of (c1, fetchr) \<Rightarrow> processURL_return c1 item fetchr now)"

text \<open>\<^verbatim>\<open>fmt.Sprintf("%d", n)\<close>.\<close>

function digits10 :: "nat \<Rightarrow> string" where
  "digits10 n = (if n < 10 then [char_of (48 + n)] else digits10 (n div 10) @ [char_of (48 + n mod 10)])"
  by pat_completeness auto
termination
  by (relation "measure id") auto

definition Itoa :: "int \<Rightarrow> string" where
  "Itoa i = (if i < 0 then CHR ''-'' # digits10 (nat (- i)) else digits10 (nat i))"

text \<open>
  \<^verbatim>\<open>New\<close> followed by \<^verbatim>\<open>Init\<close>, as \<^verbatim>\<open>main\<close> calls them. What the constructors of the
  collaborators return is given: the HTTP fetcher, the browser fetcher or the error of
  starting the browser, the registry, and the error that the text writer's
  \<^verbatim>\<open>Finalize\<close> is going to return.
\<close>

record InitEnv =
  NewHTTPFetcher :: Fetcher
  NewBrowserFetcher :: "string + Fetcher"
  NewRegistry :: "Extractor list"
  NewTextWriter_error :: "string option"

definition New :: "CrawlConfig \<Rightarrow> InitEnv \<Rightarrow> Crawler" where
  "New cfg env =
     \<lparr>config = cfg, httpFetch = NewHTTPFetcher env, browFetch = None,
      extractors = NewRegistry env, writer = None, events = [], events_closed = False,
      visited = fmempty, queue = [],
      stats = \<lparr>PagesQueued = 0, PagesCrawled = 0, PagesErrored = 0, ItemsExtracted = 0,
                ItemsByType = fmempty, Elapsed = 0\<rparr>,
      startTime = 0, stopped = False, emitted = [], fetched = []\<rparr>"

definition Init :: "CrawlConfig \<Rightarrow> InitEnv \<Rightarrow> url_error + Crawler" where
  "Init cfg env =
     (case Parse (TargetURL cfg) of
        Inl err \<Rightarrow> Inl err
      | Inr parsedURL \<Rightarrow>
          let c = New cfg env;
              c1 = (if FetcherMode (config c) = FetcherBrowser \<or> FetcherMode (config c) = FetcherAuto then
                      (case NewBrowserFetcher env of
                         Inl err \<Rightarrow>
                           (emit c ((event EventPageError [])
                              \<lparr>Message_ev := ''Browser fetcher unavailable: '' @ err
                                  @ '' (falling back to HTTP)''\<rparr>))
                             \<lparr>config := (config c)\<lparr>FetcherMode := FetcherHTTP\<rparr>\<rparr>
                       | Inr bf \<Rightarrow> c\<lparr>browFetch := Some bf\<rparr>)
                    else c);
              c2 = (if SaveOutput (config c1)
                    then c1\<lparr>writer := Some \<lparr>written = [], finalized = [],
                                               Finalize_error = NewTextWriter_error env\<rparr>\<rparr>
                    else c1)
          in Inr c2)"

text \<open>\<^verbatim>\<open>Run\<close> before its loop: the start time, the first event, the seed.\<close>

definition Run_begin :: "Crawler \<Rightarrow> int \<Rightarrow> Crawler" where
  "Run_begin c now =
     (let c1 = c\<lparr>startTime := now\<rparr>;
          c2 = emit c1 ((event EventCrawlStarted (TargetURL (config c1)))
                 \<lparr>Message_ev := ''Starting crawl of '' @ TargetURL (config c1)\<rparr>)
      in enqueue c2 (TargetURL (config c2)) 0)"

definition buildSummary :: "Crawler \<Rightarrow> int \<Rightarrow> CrawlSummary" where
  "buildSummary c now =
     (let st = getStats c in
      \<lparr>TargetURL_sum = TargetURL (config c), StartedAt = startTime c, FinishedAt = now,
       Duration = now - startTime c, TotalPages = PagesCrawled st,
       TotalErrors = PagesErrored st, TotalItems = ItemsExtracted st,
       ItemsByType_sum = ItemsByType st, Results = []\<rparr>)"

text \<open>\<^verbatim>\<open>Run\<close> after \<^verbatim>\<open>wg.Wait()\<close>: the summary, the last event, the channel closed.\<close>

definition Run_end :: "Crawler \<Rightarrow> int \<Rightarrow> Crawler" where
  "Run_end c now =
     (let c1 = (case writer c of
                  None \<Rightarrow> c
                | Some w \<Rightarrow>
                    (case Finalize w (buildSummary c now) of
                       (w1, None) \<Rightarrow> c\<lparr>writer := Some w1\<rparr>
                     | (w1, Some err) \<Rightarrow>
                         emit (c\<lparr>writer := Some w1\<rparr>)
                           ((event EventPageError [])
                              \<lparr>Error_ev := Some err,
                               Message_ev := ''Failed to write output: '' @ err\<rparr>)));
          c2 = emit c1 ((event EventCrawlFinished [])
                 \<lparr>Stats_ev := Some (getStats c1),
                  Message_ev := ''Crawl complete. '' @ Itoa (PagesCrawled (stats c1)) @ '' pages, ''
                     @ Itoa (ItemsExtracted (stats c1)) @ '' items extracted.''\<rparr>)
      in c2\<lparr>events_closed := True\<rparr>)"

section \<open>The goroutines of a crawl\<close>

text \<open>
  A running crawl is the crawler, the place \<^verbatim>\<open>Run\<close> has reached, the worker goroutines
  that have been started and have not returned, and the clock. \<^verbatim>\<open>Run\<close> is at its
  beginning, at the head of its loop, between \<^verbatim>\<open>dequeue\<close> and \<^verbatim>\<open>isStopped\<close> with the item
  it took, at the send into the semaphore \<^verbatim>\<open>sem\<close> with that item, at \<^verbatim>\<open>wg.Wait()\<close>, or it
  has returned; \<^verbatim>\<open>make(chan struct{}, n)\<close> panics for a negative \<open>n\<close>. A worker is about
  to call \<^verbatim>\<open>processURL\<close>, or is inside it waiting for \<^verbatim>\<open>Fetch\<close> to return.
\<close>

datatype run_pc =
    RunStart
  | RunLoop
  | RunCheck queueItem
  | RunAcquire queueItem
  | RunWait
  | RunDone
  | RunPanic

datatype worker =
    Spawned queueItem
  | Fetching queueItem Fetcher

record system =
  crawler :: Crawler
  pc :: run_pc
  workers :: "worker list"
  clock :: int

text \<open>One step of one goroutine: \<^verbatim>\<open>Run\<close> itself, the \<open>i\<close>-th worker, the signal handler
  calling \<^verbatim>\<open>Stop\<close>, the consumer receiving an event; or time passing. \<open>None\<close>: the
  goroutine is blocked (a full semaphore, a wait group that is not at zero) or is gone.\<close>

datatype action =
    MainStep
  | WorkerStep nat
  | StopSignal
  | ReceiveEvent
  | Tick nat

definition boot :: "Crawler \<Rightarrow> int \<Rightarrow> system" where
  "boot c t = \<lparr>crawler = c, pc = RunStart, workers = [], clock = t\<rparr>"

definition step_main :: "system \<Rightarrow> system option" where
  "step_main s =
     (case pc s of
        RunStart \<Rightarrow>
          Some (s\<lparr>crawler := Run_begin (crawler s) (clock s),
                  pc := (if Parallelism (config (crawler s)) < 0 then RunPanic else RunLoop)\<rparr>)
      | RunLoop \<Rightarrow>
          (case dequeue (crawler s) of
             (None, c) \<Rightarrow> Some (s\<lparr>crawler := c, pc := RunWait\<rparr>)
           | (Some item, c) \<Rightarrow> Some (s\<lparr>crawler := c, pc := RunCheck item\<rparr>))
      | RunCheck item \<Rightarrow>
          Some (s\<lparr>pc := (if isStopped (crawler s) then RunWait else RunAcquire item)\<rparr>)
      | RunAcquire item \<Rightarrow>
          if int (length (workers s)) < Parallelism (config (crawler s))
          then Some (s\<lparr>workers := workers s @ [Spawned item], pc := RunLoop\<rparr>)
          else None
      | RunWait \<Rightarrow>
          if workers s = []
          then Some (s\<lparr>crawler := Run_end (crawler s) (clock s), pc := RunDone\<rparr>)
          else None
      | RunDone \<Rightarrow> None
      | RunPanic \<Rightarrow> None)"

definition step_worker :: "nat \<Rightarrow> system \<Rightarrow> system option" where
  "step_worker i s =
     (if i < length (workers s) then
        (case workers s ! i of
           Spawned item \<Rightarrow>
             (case processURL_call (crawler s) item of
                (c, fetchr) \<Rightarrow>
                  Some (s\<lparr>crawler := c, workers := (workers s)[i := Fetching item fetchr]\<rparr>))
         | Fetching item fetchr \<Rightarrow>
             Some (s\<lparr>crawler := processURL_return (crawler s) item fetchr (clock s),
                     workers := take i (workers s) @ drop (Suc i) (workers s)\<rparr>))
      else None)"

fun step :: "action \<Rightarrow> system \<Rightarrow> system option" where
  "step MainStep s = step_main s"
| "step (WorkerStep i) s = step_worker i s"
| "step StopSignal s = Some (s\<lparr>crawler := Stop (crawler s)\<rparr>)"
| "step ReceiveEvent s =
     (case events (crawler s) of
        [] \<Rightarrow> None
      | ev # evs \<Rightarrow> Some (s\<lparr>crawler := (crawler s)\<lparr>events := evs\<rparr>\<rparr>))"
| "step (Tick n) s = Some (s\<lparr>clock := clock s + int n\<rparr>)"

fun run :: "action list \<Rightarrow> system \<Rightarrow> system option" where
  "run [] s = Some s"
| "run (a # as) s = (case step a s of None \<Rightarrow> None | Some s1 \<Rightarrow> run as s1)"

section \<open>A small site to run the crawler on\<close>

text \<open>\<^verbatim>\<open>DefaultConfig()\<close> with the target set, and a site of two pages: the home page links
  to \<^verbatim>\<open>/about\<close>, and every other address fails.\<close>

definition DefaultConfig :: CrawlConfig where
  "DefaultConfig =
     \<lparr>TargetURL = [], MaxDepth = 3, MaxPages = 500, Parallelism = 5, RateLimit = 200000000,
      CrawlDuration = 0, Strategy = ''depth-first'', AllowExternal = False,
      FetcherMode = FetcherHTTP, SaveOutput = False, OutputPath = ''crawl_results.json''\<rparr>"

definition site_home :: string where
  "site_home = ''https://example.com/''"

definition site_about :: string where
  "site_about = ''https://example.com/about''"

definition site_page :: "string \<Rightarrow> string \<Rightarrow> int \<Rightarrow> PageData" where
  "site_page name u d =
     \<lparr>URL_page = u, FinalURL = u, StatusCode = 200, Headers = [], RawHTML = [],
      RenderedHTML = [], ContentType = ''text/html'', FetchedAt = 0, FetchDuration = 0,
      FetcherUsed = name, InterceptedReqs = [], Error_page = [], Depth = d, ResponseSize = 0,
      Technologies = []\<rparr>"

definition site_fetcher :: "string \<Rightarrow> Fetcher" where
  "site_fetcher name =
     \<lparr>Name = name,
      Fetch = (\<lambda>u d. if u = site_home \<or> u = site_about then Inr (site_page name u d)
                      else Inl ''404 Not Found'')\<rparr>"

definition site_links :: Extractor where
  "site_links =
     \<lparr>Name_ext = ''links'',
      Extract = (\<lambda>page.
        if URL_page page = site_home
        then Inr [\<lparr>Type = ''link'', Value = ''https://example.com/about/'', SourceURL = site_home,
                   Metadata = fmupd ''link_type'' ''internal'' fmempty\<rparr>]
        else Inr [])\<rparr>"

definition site_env :: InitEnv where
  "site_env =
     \<lparr>NewHTTPFetcher = site_fetcher ''http'', NewBrowserFetcher = Inr (site_fetcher ''browser''),
      NewRegistry = [site_links], NewTextWriter_error = None\<rparr>"

definition site_config :: CrawlConfig where
  "site_config = DefaultConfig\<lparr>TargetURL := ''https://example.com''\<rparr>"

definition site_crawler :: Crawler where
  "site_crawler = (case Init site_config site_env of Inr c \<Rightarrow> c | Inl e \<Rightarrow> New site_config site_env)"

section \<open>The normalizer as the specification words it\<close>

text \<open>The specification has the normalizer strip a single trailing slash. This is that
  reading, to be compared with \<^const>\<open>normalizeURL\<close>.\<close>

definition stripOneSlash :: "string \<Rightarrow> string" where
  "stripOneSlash s = (if s \<noteq> [] \<and> last s = CHR ''/'' then butlast s else s)"

definition normalizeURL_single_slash :: "string \<Rightarrow> string" where
  "normalizeURL_single_slash rawURL =
     (case Parse rawURL of
        Inl err \<Rightarrow> []
      | Inr parsed \<Rightarrow>
          if Scheme parsed \<noteq> ''http'' \<and> Scheme parsed \<noteq> ''https'' then []
          else URL_String (parsed\<lparr>Fragment := [],
                 Path := (if stripOneSlash (Path parsed) = [] then ''/''
                          else stripOneSlash (Path parsed))\<rparr>))"

section \<open>Sequences of calls, and the crawlers of the examples\<close>

text \<open>A sequence of calls of \<^verbatim>\<open>enqueue\<close>, each with its raw URL and its depth.\<close>

fun enqueue_all :: "Crawler \<Rightarrow> (string \<times> int) list \<Rightarrow> Crawler" where
  "enqueue_all c [] = c"
| "enqueue_all c ((rawURL, d) # calls) = enqueue_all (enqueue c rawURL d) calls"

text \<open>The three guards of \<^verbatim>\<open>enqueue\<close> all passed.\<close>

definition accepted :: "Crawler \<Rightarrow> string \<Rightarrow> bool" where
  "accepted c rawURL =
     (normalizeURL rawURL \<noteq> [] \<and> \<not> lookupBool (visited c) (normalizeURL rawURL)
      \<and> len (visited c) < MaxPages (config c))"

text \<open>The crawler of the small site with \<^verbatim>\<open>MaxPages = 1\<close>.\<close>

definition capped_crawler :: Crawler where
  "capped_crawler = site_crawler\<lparr>config := (config site_crawler)\<lparr>MaxPages := 1\<rparr>\<rparr>"


section \<open>Two schedules\<close>

text \<open>\<^verbatim>\<open>Run\<close> starts, takes the seed, starts its worker and comes back to an empty queue
  before the worker has fetched anything; then the worker runs, and \<^verbatim>\<open>Run\<close> finishes.\<close>

definition drained_early :: "action list" where
  "drained_early =
     [MainStep, MainStep, MainStep, MainStep, MainStep, WorkerStep 0, WorkerStep 0, MainStep]"

text \<open>The crawler of the small site with a crawl-duration ceiling of one nanosecond, and a
  schedule in which five nanoseconds pass before the first \<^verbatim>\<open>dequeue\<close> and five more
  while the second page is fetched.\<close>

definition timed_crawler :: Crawler where
  "timed_crawler = site_crawler\<lparr>config := (config site_crawler)\<lparr>CrawlDuration := 1\<rparr>\<rparr>"

definition past_the_ceiling :: "action list" where
  "past_the_ceiling =
     [MainStep, Tick 5, MainStep, MainStep, MainStep, WorkerStep 0, WorkerStep 0,
      MainStep, MainStep, MainStep, WorkerStep 0, Tick 5, WorkerStep 0, MainStep, MainStep]"

section \<open>The items of a running crawl\<close>

text \<open>The item \<^verbatim>\<open>Run\<close> holds between \<^verbatim>\<open>dequeue\<close> and the start of its worker, the items of
  the workers that have not called \<^verbatim>\<open>Fetch\<close> yet, and the items of those that have. An
  item is in the queue, held, or with a worker until its worker returns.\<close>

fun held :: "run_pc \<Rightarrow> queueItem list" where
  "held (RunCheck item) = [item]"
| "held (RunAcquire item) = [item]"
| "held RunStart = []"
| "held RunLoop = []"
| "held RunWait = []"
| "held RunDone = []"
| "held RunPanic = []"

fun spawned :: "worker list \<Rightarrow> queueItem list" where
  "spawned [] = []"
| "spawned (Spawned item # ws) = item # spawned ws"
| "spawned (Fetching item fetchr # ws) = spawned ws"

fun fetching :: "worker list \<Rightarrow> queueItem list" where
  "fetching [] = []"
| "fetching (Spawned item # ws) = fetching ws"
| "fetching (Fetching item fetchr # ws) = item # fetching ws"

definition pending :: "system \<Rightarrow> queueItem list" where
  "pending s = queue (crawler s) @ held (pc s) @ spawned (workers s)"

definition alive :: "system \<Rightarrow> queueItem list" where
  "alive s = pending s @ fetching (workers s)"
text \<open>Every item of the crawl is within the depth limit.\<close>

definition depth_ok :: "system \<Rightarrow> bool" where
  "depth_ok s = (\<forall>item \<in> set (alive s). depth item \<le> MaxDepth (config (crawler s)))"
text \<open>The small site crawled with \<^verbatim>\<open>MaxDepth = 1\<close>, and the schedule that runs the worker of
  the seed to its end before \<^verbatim>\<open>Run\<close> looks at the queue again.\<close>

definition shallow_config :: CrawlConfig where
  "shallow_config = site_config\<lparr>MaxDepth := 1\<rparr>"

definition first_page :: "action list" where
  "first_page = [MainStep, MainStep, MainStep, MainStep, WorkerStep 0, WorkerStep 0]"

section \<open>The fetchers a crawl calls\<close>





section \<open>The frontier of a running crawl\<close>


definition page_event :: "CrawlEvent \<Rightarrow> bool" where
  "page_event ev =
     (Type_ev ev = EventPageStarted \<or> Type_ev ev = EventPageDone \<or> Type_ev ev = EventPageError)"

definition page_event_urls :: "Crawler \<Rightarrow> string list" where
  "page_event_urls c = map URL_ev (filter page_event (emitted c))"






section \<open>Another crawl-duration ceiling\<close>

text \<open>The same crawl with another crawl-duration ceiling.\<close>

definition set_duration :: "int \<Rightarrow> Crawler \<Rightarrow> Crawler" where
  "set_duration d c = c\<lparr>config := (config c)\<lparr>CrawlDuration := d\<rparr>\<rparr>"

definition with_duration :: "int \<Rightarrow> system \<Rightarrow> system" where
  "with_duration d s = s\<lparr>crawler := set_duration d (crawler s)\<rparr>"

section \<open>The URL normalizer\<close>

lemma TrimRight_slash_decomp: "\<exists>n. s = TrimRight s ''/'' @ replicate n (CHR ''/'')"
proof -
  let ?P = "\<lambda>c. c \<in> set ''/''"
  have "rev s = takeWhile ?P (rev s) @ dropWhile ?P (rev s)" by simp
  then have "s = rev (dropWhile ?P (rev s)) @ rev (takeWhile ?P (rev s))"
    by (metis rev_append rev_rev_ident)
  moreover have "\<exists>n. rev (takeWhile ?P (rev s)) = replicate n (CHR ''/'')"
  proof -
    define t where "t = rev (takeWhile ?P (rev s))"
    have "\<forall>c \<in> set t. c = CHR ''/''"
      unfolding t_def using set_takeWhileD by fastforce
    then have "replicate (length t) (CHR ''/'') = t" by (rule replicate_length_same)
    then show ?thesis unfolding t_def by metis
  qed
  ultimately show ?thesis unfolding TrimRight_def by metis
qed

lemma TrimRight_slash_last: "TrimRight s ''/'' = [] \<or> last (TrimRight s ''/'') \<noteq> CHR ''/''"
proof (cases "dropWhile (\<lambda>c. c \<in> set ''/'') (rev s)")
  case Nil
  then show ?thesis by (simp add: TrimRight_def)
next
  case (Cons a as)
  then have "\<not> a \<in> set ''/''"
    by (metis hd_dropWhile list.sel(1) list.distinct(1))
  with Cons show ?thesis by (simp add: TrimRight_def)
qed

text \<open>
  Claim C5, as amended. \<^const>\<open>normalizeURL\<close> returns the empty string when \<^verbatim>\<open>url.Parse\<close>
  fails and when the scheme is neither \<^verbatim>\<open>http\<close> nor \<^verbatim>\<open>https\<close>. Otherwise it returns the
  parsed URL serialized again with the fragment cleared and with the path \<open>t\<close> (or \<^verbatim>\<open>/\<close>
  when \<open>t\<close> is empty), where \<open>t\<close> is the parsed path without all of its trailing
  slashes: the path is \<open>t\<close> followed by \<open>n\<close> slashes, and \<open>t\<close> does not end in one.
\<close>

theorem normalizeURL_strips_all_trailing_slashes:
  "(\<forall>err. Parse rawURL = Inl err \<longrightarrow> normalizeURL rawURL = [])
   \<and> (\<forall>parsed. Parse rawURL = Inr parsed \<and> Scheme parsed \<noteq> ''http'' \<and> Scheme parsed \<noteq> ''https''
         \<longrightarrow> normalizeURL rawURL = [])
   \<and> (\<forall>parsed. Parse rawURL = Inr parsed \<and> (Scheme parsed = ''http'' \<or> Scheme parsed = ''https'')
         \<longrightarrow> (\<exists>t n. Path parsed = t @ replicate n (CHR ''/'') \<and> (t = [] \<or> last t \<noteq> CHR ''/'')
               \<and> normalizeURL rawURL =
                   URL_String (parsed\<lparr>Fragment := [], Path := (if t = [] then ''/'' else t)\<rparr>)))"
proof (intro conjI allI impI)
  fix err assume "Parse rawURL = Inl err"
  then show "normalizeURL rawURL = []" by (simp add: normalizeURL_def)
next
  fix parsed
  assume "Parse rawURL = Inr parsed \<and> Scheme parsed \<noteq> ''http'' \<and> Scheme parsed \<noteq> ''https''"
  then show "normalizeURL rawURL = []" by (simp add: normalizeURL_def)
next
  fix parsed
  assume a: "Parse rawURL = Inr parsed \<and> (Scheme parsed = ''http'' \<or> Scheme parsed = ''https'')"
  obtain n where n: "Path parsed = TrimRight (Path parsed) ''/'' @ replicate n (CHR ''/'')"
    using TrimRight_slash_decomp by blast
  have l: "TrimRight (Path parsed) ''/'' = [] \<or> last (TrimRight (Path parsed) ''/'') \<noteq> CHR ''/''"
    by (rule TrimRight_slash_last)
  have "normalizeURL rawURL =
          URL_String (parsed\<lparr>Fragment := [],
            Path := (if TrimRight (Path parsed) ''/'' = [] then ''/'' else TrimRight (Path parsed) ''/'')\<rparr>)"
    using a by (auto simp add: normalizeURL_def Let_def)
  with n l show "\<exists>t n. Path parsed = t @ replicate n (CHR ''/'') \<and> (t = [] \<or> last t \<noteq> CHR ''/'')
               \<and> normalizeURL rawURL =
                   URL_String (parsed\<lparr>Fragment := [], Path := (if t = [] then ''/'' else t)\<rparr>)"
    by blast
qed

text \<open>The amended claim at \<^verbatim>\<open>http://a/b//#top\<close>: the path \<^verbatim>\<open>/b//\<close> is \<^verbatim>\<open>/b\<close> and two
  slashes, and the result is \<^verbatim>\<open>http://a/b\<close>.\<close>

theorem normalizeURL_strips_all_trailing_slashes_witness:
  "Parse ''http://a/b//#top'' =
     Inr (emptyURL\<lparr>Scheme := ''http'', Host := ''a'', Path := ''/b//'', Fragment := ''top''\<rparr>)
   \<and> (\<exists>t n. ''/b//'' = t @ replicate n (CHR ''/'') \<and> (t = [] \<or> last t \<noteq> CHR ''/'')
         \<and> normalizeURL ''http://a/b//#top'' =
             URL_String (emptyURL\<lparr>Scheme := ''http'', Host := ''a'', Fragment := [],
               Path := (if t = [] then ''/'' else t)\<rparr>))
   \<and> normalizeURL ''http://a/b//#top'' = ''http://a/b''"
proof -
  let ?p = "emptyURL\<lparr>Scheme := ''http'', Host := ''a'', Path := ''/b//'', Fragment := ''top''\<rparr>"
  have p: "Parse ''http://a/b//#top'' = Inr ?p" by code_simp
  have s: "Scheme ?p = ''http''" by simp
  have v: "normalizeURL ''http://a/b//#top'' = ''http://a/b''" by code_simp
  from normalizeURL_strips_all_trailing_slashes [of "''http://a/b//#top''"] p s
  have "\<exists>t n. Path ?p = t @ replicate n (CHR ''/'') \<and> (t = [] \<or> last t \<noteq> CHR ''/'')
         \<and> normalizeURL ''http://a/b//#top'' =
             URL_String (?p\<lparr>Fragment := [], Path := (if t = [] then ''/'' else t)\<rparr>)"
    by blast
  then show ?thesis using p v by simp
qed

text \<open>Claim C5 as the specification states it fails at \<^verbatim>\<open>http://a/b//\<close>: stripping a
  single trailing slash would give \<^verbatim>\<open>http://a/b/\<close>, and the code gives \<^verbatim>\<open>http://a/b\<close>.\<close>

theorem normalizeURL_single_slash_counterexample:
  "normalizeURL ''http://a/b//'' = ''http://a/b''
   \<and> normalizeURL_single_slash ''http://a/b//'' = ''http://a/b/''"
  by code_simp

text \<open>
  Claim C9 fails at \<^verbatim>\<open>http:/%2Fb/\<close>, a URL without a host whose path begins with an
  escaped slash. \<^verbatim>\<open>url.Parse\<close> gives the path \<^verbatim>\<open>//b/\<close>; trimming the path invalidates the
  raw path, and \<^verbatim>\<open>String\<close> writes \<^verbatim>\<open>http:\<close> and the path \<^verbatim>\<open>//b\<close>. The result
  \<^verbatim>\<open>http://b\<close> is accepted but is not a fixed point: normalized again, \<^verbatim>\<open>b\<close> is a host and
  the result is \<^verbatim>\<open>http://b/\<close>.
\<close>

theorem normalizeURL_not_idempotent:
  "normalizeURL ''http:/%2Fb/'' = ''http://b''
   \<and> normalizeURL (normalizeURL ''http:/%2Fb/'') = ''http://b/''"
  by code_simp

section \<open>The frontier\<close>

lemma emit_fields [simp]:
  "config (emit c ev) = config c"
  "httpFetch (emit c ev) = httpFetch c"
  "browFetch (emit c ev) = browFetch c"
  "extractors (emit c ev) = extractors c"
  "writer (emit c ev) = writer c"
  "events_closed (emit c ev) = events_closed c"
  "visited (emit c ev) = visited c"
  "queue (emit c ev) = queue c"
  "stats (emit c ev) = stats c"
  "startTime (emit c ev) = startTime c"
  "stopped (emit c ev) = stopped c"
  "fetched (emit c ev) = fetched c"
  "emitted (emit c ev) = emitted c @ [ev]"
  by (simp_all add: emit_def)

lemma len_nonneg [simp]: "0 \<le> len m"
  by (simp add: len_def)

lemma len_fmempty [simp]: "len fmempty = 0"
  by (simp add: len_def)

lemma len_fmupd_le: "len (fmupd k v m) \<le> len m + 1"
  by (simp add: len_def fcard_finsert_if)

lemma lookupBool_fmupd [simp]: "lookupBool (fmupd k True m) k"
  by (simp add: lookupBool_def)

lemma enqueue_rejected: "\<not> accepted c rawURL \<Longrightarrow> enqueue c rawURL d = c"
  by (auto simp add: accepted_def enqueue_def Let_def)

lemma enqueue_accepted:
  "accepted c rawURL \<Longrightarrow>
   enqueue c rawURL d =
     emit (c\<lparr>visited := fmupd (normalizeURL rawURL) True (visited c),
              queue := queue c @ [\<lparr>url = normalizeURL rawURL, depth = d\<rparr>],
              stats := (stats c)\<lparr>PagesQueued := PagesQueued (stats c) + 1\<rparr>\<rparr>)
       (event EventPageQueued (normalizeURL rawURL))"
  by (auto simp add: accepted_def enqueue_def Let_def)

lemma enqueue_config [simp]: "config (enqueue c rawURL d) = config c"
  by (cases "accepted c rawURL") (simp_all add: enqueue_rejected enqueue_accepted)

lemma enqueue_visited_len:
  "len (visited c) \<le> MaxPages (config c) \<Longrightarrow>
   len (visited (enqueue c rawURL d)) \<le> MaxPages (config c)"
proof (cases "accepted c rawURL")
  case True
  then have "len (visited c) < MaxPages (config c)" by (simp add: accepted_def)
  moreover have "len (fmupd (normalizeURL rawURL) True (visited c)) \<le> len (visited c) + 1"
    by (rule len_fmupd_le)
  ultimately show ?thesis using True by (simp add: enqueue_accepted)
next
  case False
  assume "len (visited c) \<le> MaxPages (config c)"
  with False show ?thesis by (simp add: enqueue_rejected)
qed

lemma enqueue_at_cap: "MaxPages (config c) \<le> len (visited c) \<Longrightarrow> enqueue c rawURL d = c"
  by (rule enqueue_rejected) (simp add: accepted_def)

lemma enqueue_visited_mono: "fmdom (visited c) |\<subseteq>| fmdom (visited (enqueue c rawURL d))"
  by (cases "accepted c rawURL") (auto simp add: enqueue_rejected enqueue_accepted)

lemma enqueue_all_config [simp]: "config (enqueue_all c calls) = config c"
  by (induction c calls rule: enqueue_all.induct) simp_all

text \<open>
  Claim C2. Whatever the calls of \<^verbatim>\<open>enqueue\<close> and their arguments: a visited set that
  holds at most \<^verbatim>\<open>MaxPages\<close> entries (as the empty set of a new crawl does, for a cap that
  is not negative) still holds at most \<^verbatim>\<open>MaxPages\<close> entries after them; a crawler whose
  visited set has reached the cap is left exactly as it was by every further call, new
  URL or re-discovery (so nothing is ever added for a negative cap); and the visited set
  never loses an entry, so its size is the number of entries ever added.
\<close>

theorem page_cap:
  "(len (visited c) \<le> MaxPages (config c) \<longrightarrow>
      len (visited (enqueue_all c calls)) \<le> MaxPages (config c))
   \<and> (MaxPages (config c) \<le> len (visited c) \<longrightarrow> enqueue_all c calls = c)
   \<and> fmdom (visited c) |\<subseteq>| fmdom (visited (enqueue_all c calls))"
proof (induction c calls rule: enqueue_all.induct)
  case (1 c)
  show ?case by simp
next
  case (2 c rawURL d calls)
  let ?c = "enqueue c rawURL d"
  have cfg: "config ?c = config c" by simp
  show ?case
  proof (intro conjI impI)
    assume "len (visited c) \<le> MaxPages (config c)"
    then have "len (visited ?c) \<le> MaxPages (config ?c)" by (simp add: enqueue_visited_len)
    with "2.IH" show "len (visited (enqueue_all c ((rawURL, d) # calls))) \<le> MaxPages (config c)"
      by simp
  next
    assume cap: "MaxPages (config c) \<le> len (visited c)"
    then have "?c = c" by (rule enqueue_at_cap)
    with "2.IH" cap show "enqueue_all c ((rawURL, d) # calls) = c" by simp
  next
    have "fmdom (visited c) |\<subseteq>| fmdom (visited ?c)" by (rule enqueue_visited_mono)
    with "2.IH" show "fmdom (visited c) |\<subseteq>| fmdom (visited (enqueue_all c ((rawURL, d) # calls)))"
      by auto
  qed
qed

text \<open>With \<^verbatim>\<open>MaxPages = 1\<close>: three calls on the new crawler leave one entry, and after the
  seed has been enqueued two more calls change nothing.\<close>

theorem page_cap_witness:
  "len (visited capped_crawler) \<le> MaxPages (config capped_crawler)
   \<and> len (visited (enqueue_all capped_crawler
        [(''https://example.com'', 0), (''https://example.com/about'', 1), (''https://example.com/'', 1)])) \<le> 1
   \<and> MaxPages (config (enqueue capped_crawler ''https://example.com'' 0))
        \<le> len (visited (enqueue capped_crawler ''https://example.com'' 0))
   \<and> enqueue_all (enqueue capped_crawler ''https://example.com'' 0)
        [(''https://example.com/about'', 1), (''https://example.com/'', 1)]
      = enqueue capped_crawler ''https://example.com'' 0"
proof -
  let ?calls = "[(''https://example.com'', 0), (''https://example.com/about'', 1), (''https://example.com/'', 1)]"
  let ?c1 = "enqueue capped_crawler ''https://example.com'' 0"
  have m: "MaxPages (config capped_crawler) = 1" by code_simp
  have h1: "len (visited capped_crawler) \<le> MaxPages (config capped_crawler)" by code_simp
  have h2: "MaxPages (config ?c1) \<le> len (visited ?c1)" by code_simp
  from page_cap [of capped_crawler ?calls] h1 m
  have "len (visited (enqueue_all capped_crawler ?calls)) \<le> 1" by simp
  moreover from page_cap [of ?c1 "[(''https://example.com/about'', 1), (''https://example.com/'', 1)]"] h2
  have "enqueue_all ?c1 [(''https://example.com/about'', 1), (''https://example.com/'', 1)] = ?c1" by blast
  ultimately show ?thesis using h1 h2 by blast
qed

lemma enqueue_all_same:
  "\<forall>(rawURL, d) \<in> set calls. normalizeURL rawURL = n \<Longrightarrow>
   n = [] \<or> lookupBool (visited c) n \<or> MaxPages (config c) \<le> len (visited c) \<Longrightarrow>
   enqueue_all c calls = c"
proof (induction c calls rule: enqueue_all.induct)
  case (1 c)
  show ?case by simp
next
  case (2 c rawURL d calls)
  from "2.prems" have "\<not> accepted c rawURL" by (auto simp add: accepted_def)
  then have "enqueue c rawURL d = c" by (rule enqueue_rejected)
  with 2 show ?case by simp
qed

text \<open>
  Claim C3, as amended. Let a call of \<^verbatim>\<open>enqueue\<close> be followed by any number of calls with
  variants that normalize to the same string \<open>n\<close>, at any depths. The crawler after all
  of them is the crawler after the first call: every later call changes nothing. If
  \<open>n\<close> is not empty, is not marked visited and the visited set is below \<^verbatim>\<open>MaxPages\<close>, the
  first call appends exactly one item to the queue, hands exactly one "queued" event to
  \<^verbatim>\<open>emit\<close> (which puts it on the channel unless 1000 events are waiting there), adds one to
  the queued counter and marks \<open>n\<close> visited. Otherwise the first call changes nothing
  either.
\<close>

theorem enqueue_dedup:
  assumes first: "normalizeURL rawURL = n"
    and rest: "\<forall>(variant, d) \<in> set calls. normalizeURL variant = n"
  shows "enqueue_all c ((rawURL, d0) # calls) = enqueue c rawURL d0
    \<and> (n \<noteq> [] \<and> \<not> lookupBool (visited c) n \<and> len (visited c) < MaxPages (config c) \<longrightarrow>
         queue (enqueue c rawURL d0) = queue c @ [\<lparr>url = n, depth = d0\<rparr>]
       \<and> emitted (enqueue c rawURL d0) = emitted c @ [event EventPageQueued n]
       \<and> events (enqueue c rawURL d0) =
           (if length (events c) < 1000 then events c @ [event EventPageQueued n] else events c)
       \<and> stats (enqueue c rawURL d0) = (stats c)\<lparr>PagesQueued := PagesQueued (stats c) + 1\<rparr>
       \<and> visited (enqueue c rawURL d0) = fmupd n True (visited c))
    \<and> (n = [] \<or> lookupBool (visited c) n \<or> MaxPages (config c) \<le> len (visited c) \<longrightarrow>
         enqueue c rawURL d0 = c)"
proof (intro conjI impI)
  show "enqueue_all c ((rawURL, d0) # calls) = enqueue c rawURL d0"
  proof (cases "accepted c rawURL")
    case True
    then have "lookupBool (visited (enqueue c rawURL d0)) n"
      using first by (simp add: enqueue_accepted)
    with rest have "enqueue_all (enqueue c rawURL d0) calls = enqueue c rawURL d0"
      by (intro enqueue_all_same [where n = n]) auto
    then show ?thesis by simp
  next
    case False
    then have e: "enqueue c rawURL d0 = c" by (rule enqueue_rejected)
    from False first have "n = [] \<or> lookupBool (visited c) n \<or> MaxPages (config c) \<le> len (visited c)"
      by (auto simp add: accepted_def)
    with rest have "enqueue_all c calls = c" by (rule enqueue_all_same)
    with e show ?thesis by simp
  qed
next
  assume a: "n \<noteq> [] \<and> \<not> lookupBool (visited c) n \<and> len (visited c) < MaxPages (config c)"
  with first have acc: "accepted c rawURL" by (simp add: accepted_def)
  show "queue (enqueue c rawURL d0) = queue c @ [\<lparr>url = n, depth = d0\<rparr>]"
    using acc first by (simp add: enqueue_accepted)
  show "emitted (enqueue c rawURL d0) = emitted c @ [event EventPageQueued n]"
    using acc first by (simp add: enqueue_accepted)
  show "events (enqueue c rawURL d0) =
           (if length (events c) < 1000 then events c @ [event EventPageQueued n] else events c)"
    using acc first by (simp add: enqueue_accepted emit_def)
  show "stats (enqueue c rawURL d0) = (stats c)\<lparr>PagesQueued := PagesQueued (stats c) + 1\<rparr>"
    using acc first by (simp add: enqueue_accepted)
  show "visited (enqueue c rawURL d0) = fmupd n True (visited c)"
    using acc first by (simp add: enqueue_accepted)
next
  assume "n = [] \<or> lookupBool (visited c) n \<or> MaxPages (config c) \<le> len (visited c)"
  with first have "\<not> accepted c rawURL" by (auto simp add: accepted_def)
  then show "enqueue c rawURL d0 = c" by (rule enqueue_rejected)
qed

text \<open>Three variants of \<^verbatim>\<open>https://example.com/about\<close> on the new crawler of the small site:
  one item, one event.\<close>

theorem enqueue_dedup_witness:
  "normalizeURL ''https://example.com/about'' = ''https://example.com/about''
   \<and> normalizeURL ''https://example.com/about/'' = ''https://example.com/about''
   \<and> normalizeURL ''HTTPS://example.com/about#team'' = ''https://example.com/about''
   \<and> len (visited site_crawler) < MaxPages (config site_crawler)
   \<and> queue (enqueue_all site_crawler
        [(''https://example.com/about'', 1), (''https://example.com/about/'', 2),
         (''HTTPS://example.com/about#team'', 1)])
      = [\<lparr>url = ''https://example.com/about'', depth = 1\<rparr>]
   \<and> emitted (enqueue_all site_crawler
        [(''https://example.com/about'', 1), (''https://example.com/about/'', 2),
         (''HTTPS://example.com/about#team'', 1)])
      = [event EventPageQueued ''https://example.com/about'']"
proof -
  let ?n = "''https://example.com/about''"
  let ?calls = "[(''https://example.com/about/'', 2), (''HTTPS://example.com/about#team'', 1)]"
  have n1: "normalizeURL ''https://example.com/about'' = ?n" by code_simp
  have n2: "normalizeURL ''https://example.com/about/'' = ?n" by code_simp
  have n3: "normalizeURL ''HTTPS://example.com/about#team'' = ?n" by code_simp
  have r: "\<forall>(variant, d) \<in> set ?calls. normalizeURL variant = ?n" using n2 n3 by simp
  have q: "queue site_crawler = []" by code_simp
  have e: "emitted site_crawler = []" by code_simp
  have v: "\<not> lookupBool (visited site_crawler) ?n" by code_simp
  have l: "len (visited site_crawler) < MaxPages (config site_crawler)" by code_simp
  from enqueue_dedup [OF n1 r, of site_crawler 1] v l q e
  show ?thesis using n1 n2 n3 by simp
qed

text \<open>
  Claim C3 as stated fails. One call with \<^verbatim>\<open>ftp://example.com/pub\<close> on the new crawler
  appends no item, emits no event and leaves the counter: the normalizer rejects the
  scheme. And with \<^verbatim>\<open>MaxPages = 1\<close>, once the seed is enqueued, a call with the new URL
  \<^verbatim>\<open>https://example.com/about\<close> appends nothing: the queue holds the seed alone.
\<close>

theorem enqueue_dedup_counterexample:
  "queue (enqueue site_crawler ''ftp://example.com/pub'' 1) = queue site_crawler
   \<and> emitted (enqueue site_crawler ''ftp://example.com/pub'' 1) = emitted site_crawler
   \<and> PagesQueued (stats (enqueue site_crawler ''ftp://example.com/pub'' 1)) = PagesQueued (stats site_crawler)
   \<and> queue (enqueue (enqueue capped_crawler ''https://example.com'' 0) ''https://example.com/about'' 1)
       = [\<lparr>url = ''https://example.com/'', depth = 0\<rparr>]"
  by code_simp

section \<open>Processing one page\<close>

lemma chooseFetcher_emit [simp]: "chooseFetcher (emit c ev) u = chooseFetcher c u"
  by (simp add: chooseFetcher_def split: option.splits)


lemma chooseFetcher_extractors [simp]: "chooseFetcher (c\<lparr>extractors := r\<rparr>) u = chooseFetcher c u"
  by (simp add: chooseFetcher_def split: option.splits)




section \<open>The scheduler\<close>

text \<open>
  Claim C1 fails on the code. \<^verbatim>\<open>Run\<close> leaves its loop the first time \<^verbatim>\<open>dequeue\<close> finds the
  queue empty and never looks at the queue again after \<^verbatim>\<open>wg.Wait()\<close>. On the small site,
  under the schedule \<^const>\<open>drained_early\<close>, the worker for the home page enqueues
  \<^verbatim>\<open>/about\<close> after \<^verbatim>\<open>Run\<close> has left the loop: the crawl finishes with that item still in
  the queue, one page fetched and two queued.
\<close>

theorem link_found_while_draining_is_dropped:
  "(case run drained_early (boot site_crawler 0) of
      None \<Rightarrow> False
    | Some s \<Rightarrow>
        pc s = RunDone \<and> workers s = []
        \<and> queue (crawler s) = [\<lparr>url = ''https://example.com/about'', depth = 1\<rparr>]
        \<and> fetched (crawler s) = [(''http'', ''https://example.com/'', 0)]
        \<and> PagesQueued (stats (crawler s)) = 2 \<and> PagesCrawled (stats (crawler s)) = 1
        \<and> map Type_ev (emitted (crawler s)) =
            [EventCrawlStarted, EventPageQueued, EventPageStarted, EventPageDone, EventPageQueued,
             EventCrawlFinished]
        \<and> events_closed (crawler s))"
  by code_simp

text \<open>
  Claim C6 fails on the code. Nothing in \<^verbatim>\<open>Run\<close> reads \<^verbatim>\<open>CrawlDuration\<close>. With a ceiling of
  one nanosecond and the schedule \<^const>\<open>past_the_ceiling\<close>, both pages are dequeued and
  fetched after the ceiling has passed, and the crawl ends ten nanoseconds after its start
  because the queue is empty.
\<close>

theorem crawl_duration_is_not_enforced:
  "(case run past_the_ceiling (boot timed_crawler 0) of
      None \<Rightarrow> False
    | Some s \<Rightarrow>
        CrawlDuration (config (crawler s)) = 1
        \<and> startTime (crawler s) = 0 \<and> clock s = 10
        \<and> pc s = RunDone
        \<and> fetched (crawler s) =
            [(''http'', ''https://example.com/'', 0), (''http'', ''https://example.com/about'', 1)]
        \<and> PagesCrawled (stats (crawler s)) = 2
        \<and> Elapsed (stats (crawler s)) = 10)"
  by code_simp

section \<open>The steps of a crawl, case by case\<close>

lemma step_main_cases:
  assumes "step_main s = Some s1"
  obtains
    (start) "pc s = RunStart"
      "s1 = s\<lparr>crawler := Run_begin (crawler s) (clock s),
              pc := (if Parallelism (config (crawler s)) < 0 then RunPanic else RunLoop)\<rparr>"
  | (empty) "pc s = RunLoop" "queue (crawler s) = []" "s1 = s\<lparr>pc := RunWait\<rparr>"
  | (take) item rest where "pc s = RunLoop" "queue (crawler s) = item # rest"
      "s1 = s\<lparr>crawler := (crawler s)\<lparr>queue := rest\<rparr>, pc := RunCheck item\<rparr>"
  | (stop) item where "pc s = RunCheck item" "stopped (crawler s)" "s1 = s\<lparr>pc := RunWait\<rparr>"
  | (go) item where "pc s = RunCheck item" "\<not> stopped (crawler s)" "s1 = s\<lparr>pc := RunAcquire item\<rparr>"
  | (spawn) item where "pc s = RunAcquire item"
      "s1 = s\<lparr>workers := workers s @ [Spawned item], pc := RunLoop\<rparr>"
  | (finish) "pc s = RunWait" "workers s = []"
      "s1 = s\<lparr>crawler := Run_end (crawler s) (clock s), pc := RunDone\<rparr>"
proof (cases "pc s")
  case RunStart
  with assms start show ?thesis by (simp add: step_main_def)
next
  case RunLoop
  show ?thesis
  proof (cases "queue (crawler s)")
    case Nil
    with RunLoop assms empty show ?thesis by (simp add: step_main_def dequeue_def)
  next
    case (Cons item rest)
    with RunLoop assms take show ?thesis by (simp add: step_main_def dequeue_def)
  qed
next
  case (RunCheck item)
  with assms stop go show ?thesis by (cases "stopped (crawler s)") (simp_all add: step_main_def isStopped_def)
next
  case (RunAcquire item)
  with assms spawn show ?thesis by (simp add: step_main_def split: if_splits)
next
  case RunWait
  with assms finish show ?thesis by (simp add: step_main_def split: if_splits)
next
  case RunDone
  with assms show ?thesis by (simp add: step_main_def)
next
  case RunPanic
  with assms show ?thesis by (simp add: step_main_def)
qed

lemma step_worker_cases:
  assumes "step_worker i s = Some s1"
  obtains
    (call) A B item where "workers s = A @ Spawned item # B"
      "s1 = s\<lparr>crawler := fst (processURL_call (crawler s) item),
              workers := A @ Fetching item (snd (processURL_call (crawler s) item)) # B\<rparr>"
  | (return) A B item fetchr where "workers s = A @ Fetching item fetchr # B"
      "s1 = s\<lparr>crawler := processURL_return (crawler s) item fetchr (clock s), workers := A @ B\<rparr>"
proof -
  from assms have i: "i < length (workers s)" by (simp add: step_worker_def split: if_splits)
  then have d: "workers s = take i (workers s) @ workers s ! i # drop (Suc i) (workers s)"
    by (rule id_take_nth_drop)
  show ?thesis
  proof (cases "workers s ! i")
    case (Spawned item)
    have "(workers s)[i := Fetching item (snd (processURL_call (crawler s) item))]
        = take i (workers s) @ Fetching item (snd (processURL_call (crawler s) item)) # drop (Suc i) (workers s)"
      using i by (rule upd_conv_take_nth_drop)
    with assms i Spawned d call show ?thesis
      by (auto simp add: step_worker_def split: prod.splits)
  next
    case (Fetching item fetchr)
    with assms i d return show ?thesis by (auto simp add: step_worker_def)
  qed
qed

lemma spawned_append [simp]: "spawned (A @ B) = spawned A @ spawned B"
  by (induction A rule: spawned.induct) simp_all

lemma fetching_append [simp]: "fetching (A @ B) = fetching A @ fetching B"
  by (induction A rule: fetching.induct) simp_all

lemma processURL_call_eq:
  "processURL_call c item =
     ((emit c (event EventPageStarted (url item)))
        \<lparr>fetched := fetched c @ [(Name (chooseFetcher c (url item)), url item, depth item)]\<rparr>,
      chooseFetcher c (url item))"
  by (simp add: processURL_call_def Let_def)

lemma enqueueLinks_preserves:
  assumes "P c" and "\<And>c rawURL. P c \<Longrightarrow> P (enqueue c rawURL (d + 1))"
  shows "P (enqueueLinks c items d)"
  using assms(1)
proof (induction items arbitrary: c)
  case Nil
  then show ?case by simp
next
  case (Cons extracted items)
  then show ?case by (simp add: assms(2))
qed

text \<open>What \<^verbatim>\<open>processURL\<close> has done when \<^verbatim>\<open>Fetch\<close> has returned a page and the loop over the
  links has not begun.\<close>

lemma processURL_return_cases:
  obtains
    (error) err where "Fetch fetchr (url item) (depth item) = Inl err"
      "processURL_return c item fetchr now =
         emit (c\<lparr>stats := (stats c)\<lparr>PagesErrored := PagesErrored (stats c) + 1\<rparr>\<rparr>)
           ((event EventPageError (url item))
              \<lparr>Error_ev := Some err, Message_ev := ''Error fetching '' @ url item @ '': '' @ err\<rparr>)"
  | (page) pageData c3 ev where "Fetch fetchr (url item) (depth item) = Inr pageData"
      "processURL_return c item fetchr now =
         (if depth item < MaxDepth (config c)
          then enqueueLinks c3 (ExtractAll (extractors c) pageData) (depth item) else c3)"
      "config c3 = config c" "httpFetch c3 = httpFetch c" "browFetch c3 = browFetch c"
      "visited c3 = visited c" "queue c3 = queue c" "fetched c3 = fetched c"
      "stopped c3 = stopped c" "emitted c3 = emitted c @ [ev]"
      "Type_ev ev = EventPageDone" "URL_ev ev = url item"
      "PagesCrawled (stats c3) = PagesCrawled (stats c) + 1"
      "PagesQueued (stats c3) = PagesQueued (stats c)"
proof (cases "Fetch fetchr (url item) (depth item)")
  case (Inl err)
  with error show ?thesis by (simp add: processURL_return_def)
next
  case (Inr pageData)
  define items where "items = ExtractAll (extractors c) pageData"
  define result where "result = \<lparr>Page = pageData, ExtractedItems = items\<rparr>"
  define c1 where "c1 = (case writer c of None \<Rightarrow> c | Some w \<Rightarrow> c\<lparr>writer := Some (WriteResult w result)\<rparr>)"
  define c2 where "c2 = c1\<lparr>stats := (stats c1)
                     \<lparr>PagesCrawled := PagesCrawled (stats c1) + 1,
                      ItemsExtracted := ItemsExtracted (stats c1) + int (length items),
                      ItemsByType := countByType (ItemsByType (stats c1)) items,
                      Elapsed := now - startTime c1\<rparr>\<rparr>"
  define ev where "ev = (event EventPageDone (url item))
                     \<lparr>Result_ev := Some result, Stats_ev := Some (getStats c2)\<rparr>"
  define c3 where "c3 = emit c2 ev"
  have r: "processURL_return c item fetchr now =
         (if depth item < MaxDepth (config c3) then enqueueLinks c3 items (depth item) else c3)"
    using Inr unfolding processURL_return_def Let_def c3_def ev_def c2_def c1_def result_def items_def
    by simp
  have c1: "config c1 = config c" "httpFetch c1 = httpFetch c" "browFetch c1 = browFetch c"
      "visited c1 = visited c" "queue c1 = queue c" "fetched c1 = fetched c"
      "stopped c1 = stopped c" "emitted c1 = emitted c" "stats c1 = stats c"
    by (simp_all add: c1_def split: option.splits)
  have c3: "config c3 = config c" "httpFetch c3 = httpFetch c" "browFetch c3 = browFetch c"
      "visited c3 = visited c" "queue c3 = queue c" "fetched c3 = fetched c"
      "stopped c3 = stopped c" "emitted c3 = emitted c @ [ev]"
      "PagesCrawled (stats c3) = PagesCrawled (stats c) + 1"
      "PagesQueued (stats c3) = PagesQueued (stats c)"
    by (simp_all add: c3_def c2_def c1)
  have ev: "Type_ev ev = EventPageDone" "URL_ev ev = url item"
    by (simp_all add: ev_def event_def)
  from page [OF Inr _ c3(1-8) ev c3(9,10)] r c3(1) show ?thesis
    by (simp add: items_def)
qed

section \<open>What no step changes\<close>

lemma enqueueLinks_config [simp]: "config (enqueueLinks c items d) = config c"
  by (rule enqueueLinks_preserves) simp_all

lemma processURL_return_config [simp]: "config (processURL_return c item fetchr now) = config c"
  by (cases rule: processURL_return_cases [of fetchr item c now]) simp_all

lemma Run_begin_config [simp]: "config (Run_begin c now) = config c"
  by (simp add: Run_begin_def Let_def)

lemma Run_end_config [simp]: "config (Run_end c now) = config c"
  by (simp add: Run_end_def Let_def Finalize_def split: option.splits prod.splits)

lemma step_config:
  assumes "step a s = Some s1"
  shows "config (crawler s1) = config (crawler s)"
proof (cases a)
  case MainStep
  with assms have "step_main s = Some s1" by simp
  then show ?thesis by (cases rule: step_main_cases) simp_all
next
  case (WorkerStep i)
  with assms have "step_worker i s = Some s1" by simp
  then show ?thesis by (cases rule: step_worker_cases) (simp_all add: processURL_call_eq)
next
  case StopSignal
  with assms show ?thesis by (auto simp add: Stop_def)
next
  case ReceiveEvent
  with assms show ?thesis by (auto split: list.splits)
next
  case (Tick n)
  with assms show ?thesis by auto
qed

lemma run_config:
  "run acts s = Some s1 \<Longrightarrow> config (crawler s1) = config (crawler s)"
proof (induction acts arbitrary: s)
  case Nil
  then show ?case by simp
next
  case (Cons a acts)
  then obtain s2 where "step a s = Some s2" "run acts s2 = Some s1"
    by (auto split: option.splits)
  with Cons.IH step_config show ?case by fastforce
qed

lemma Init_fields:
  assumes "Init cfg env = Inr c"
  shows "queue c = []" "visited c = fmempty" "fetched c = []" "stopped c = False"
    "stats c = \<lparr>PagesQueued = 0, PagesCrawled = 0, PagesErrored = 0, ItemsExtracted = 0,
                ItemsByType = fmempty, Elapsed = 0\<rparr>"
    "MaxDepth (config c) = MaxDepth cfg" "MaxPages (config c) = MaxPages cfg"
    "httpFetch c = NewHTTPFetcher env"
    "\<forall>ev \<in> set (emitted c). URL_ev ev = []"
  using assms
  by (auto simp add: Init_def New_def Let_def emit_def event_def
      split: sum.splits if_splits)

section \<open>The depth limit\<close>

lemma enqueue_queue_cases:
  "queue (enqueue c rawURL d) = queue c
   \<or> queue (enqueue c rawURL d) = queue c @ [\<lparr>url = normalizeURL rawURL, depth = d\<rparr>]"
  by (cases "accepted c rawURL") (simp_all add: enqueue_rejected enqueue_accepted)

lemma enqueueLinks_queue_depth:
  "\<forall>item \<in> set (queue (enqueueLinks c items d)). item \<in> set (queue c) \<or> depth item = d + 1"
proof (rule enqueueLinks_preserves)
  show "\<forall>item \<in> set (queue c). item \<in> set (queue c) \<or> depth item = d + 1" by simp
next
  fix c1 :: Crawler and rawURL
  assume "\<forall>item \<in> set (queue c1). item \<in> set (queue c) \<or> depth item = d + 1"
  then show "\<forall>item \<in> set (queue (enqueue c1 rawURL (d + 1))). item \<in> set (queue c) \<or> depth item = d + 1"
    using enqueue_queue_cases [of c1 rawURL "d + 1"] by auto
qed

lemma processURL_return_queue_depth:
  "\<forall>x \<in> set (queue (processURL_return c item fetchr now)).
     x \<in> set (queue c) \<or> (depth item < MaxDepth (config c) \<and> depth x = depth item + 1)"
proof (cases rule: processURL_return_cases [of fetchr item c now])
  case (error err)
  then show ?thesis by simp
next
  case (page pageData c3 ev)
  then show ?thesis
    using enqueueLinks_queue_depth [of c3 "ExtractAll (extractors c) pageData" "depth item"]
    by auto
qed

lemma step_depth_ok:
  assumes "step a s = Some s1" and "depth_ok s" and "0 \<le> MaxDepth (config (crawler s))"
  shows "depth_ok s1"
proof (cases a)
  case MainStep
  with assms have "step_main s = Some s1" by simp
  then show ?thesis
  proof (cases rule: step_main_cases)
    case start
    have "\<forall>x \<in> set (queue (Run_begin (crawler s) (clock s))). x \<in> set (queue (crawler s)) \<or> depth x = 0"
      using enqueue_queue_cases
        [of "emit ((crawler s)\<lparr>startTime := clock s\<rparr>)
               ((event EventCrawlStarted (TargetURL (config (crawler s))))
                  \<lparr>Message_ev := ''Starting crawl of '' @ TargetURL (config (crawler s))\<rparr>)"
            "TargetURL (config (crawler s))" 0]
      by (auto simp add: Run_begin_def Let_def)
    with start assms(2,3) show ?thesis
      by (auto simp add: depth_ok_def alive_def pending_def)
  next
    case (finish)
    have "queue (Run_end (crawler s) (clock s)) = queue (crawler s)"
      by (simp add: Run_end_def Let_def Finalize_def split: option.splits prod.splits)
    with finish assms(2) show ?thesis
      by (auto simp add: depth_ok_def alive_def pending_def)
  qed (use assms(2) in \<open>auto simp add: depth_ok_def alive_def pending_def\<close>)
next
  case (WorkerStep i)
  with assms have "step_worker i s = Some s1" by simp
  then show ?thesis
  proof (cases rule: step_worker_cases)
    case (call A B item)
    with assms(2) show ?thesis
      by (auto simp add: depth_ok_def alive_def pending_def processURL_call_eq)
  next
    case (return A B item fetchr)
    from return(1) assms(2) have "depth item \<le> MaxDepth (config (crawler s))"
      by (simp add: depth_ok_def alive_def pending_def)
    with return assms(2) processURL_return_queue_depth [of "crawler s" item fetchr "clock s"]
    show ?thesis
      by (auto simp add: depth_ok_def alive_def pending_def)
  qed
next
  case StopSignal
  with assms show ?thesis by (auto simp add: Stop_def depth_ok_def alive_def pending_def)
next
  case ReceiveEvent
  with assms show ?thesis by (auto simp add: depth_ok_def alive_def pending_def split: list.splits)
next
  case (Tick n)
  with assms show ?thesis by (auto simp add: depth_ok_def alive_def pending_def)
qed

lemma run_depth_ok:
  "run acts s = Some s1 \<Longrightarrow> depth_ok s \<Longrightarrow> 0 \<le> MaxDepth (config (crawler s)) \<Longrightarrow> depth_ok s1"
proof (induction acts arbitrary: s)
  case Nil
  then show ?case by simp
next
  case (Cons a acts)
  then obtain s2 where s2: "step a s = Some s2" "run acts s2 = Some s1"
    by (auto split: option.splits)
  from s2(1) Cons.prems have "depth_ok s2" by (auto intro: step_depth_ok)
  moreover from s2(1) have "config (crawler s2) = config (crawler s)" by (rule step_config)
  ultimately show ?case using Cons.IH [OF s2(2)] Cons.prems by simp
qed

lemma processURL_at_depth_limit:
  assumes "MaxDepth (config c) \<le> depth item"
  shows "queue (processURL c item now) = queue c \<and> visited (processURL c item now) = visited c
    \<and> PagesQueued (stats (processURL c item now)) = PagesQueued (stats c)"
proof -
  let ?c1 = "fst (processURL_call c item)"
  let ?f = "snd (processURL_call c item)"
  have p: "processURL c item now = processURL_return ?c1 item ?f now"
    by (simp add: processURL_def split: prod.splits)
  have c1: "queue ?c1 = queue c" "visited ?c1 = visited c" "stats ?c1 = stats c" "config ?c1 = config c"
    by (simp_all add: processURL_call_eq)
  show ?thesis
  proof (cases rule: processURL_return_cases [of ?f item ?c1 now])
    case (error err)
    with p c1 show ?thesis by simp
  next
    case (page pageData c3 ev)
    with p c1 assms show ?thesis by simp
  qed
qed

text \<open>
  Claim C4. Take any crawl: a crawler as \<^verbatim>\<open>Init\<close> leaves it, with \<^verbatim>\<open>MaxDepth\<close> not
  negative, and any steps of its goroutines in any order. In the state reached, every
  item in the queue, held by \<^verbatim>\<open>Run\<close> or with a worker has a depth of at most \<^verbatim>\<open>MaxDepth\<close>
  (an item is created by being appended to the queue, so these are all the items ever
  created that are still to be processed or being processed). And processing an item
  whose depth equals \<^verbatim>\<open>MaxDepth\<close> leaves the queue, the visited set and the queued counter
  as they are: it enqueues nothing.
\<close>

theorem depth_cap:
  assumes "Init cfg env = Inr c" and "0 \<le> MaxDepth cfg" and "run acts (boot c t) = Some s"
  shows "(\<forall>item \<in> set (queue (crawler s)). depth item \<le> MaxDepth cfg)
    \<and> (\<forall>item \<in> set (alive s). depth item \<le> MaxDepth cfg)
    \<and> (\<forall>item now. depth item = MaxDepth cfg \<longrightarrow>
          queue (processURL (crawler s) item now) = queue (crawler s)
        \<and> visited (processURL (crawler s) item now) = visited (crawler s)
        \<and> PagesQueued (stats (processURL (crawler s) item now)) = PagesQueued (stats (crawler s)))"
proof -
  from assms(1) have i: "queue c = []" "MaxDepth (config c) = MaxDepth cfg"
    by (rule Init_fields)+
  then have "depth_ok (boot c t)"
    by (simp add: depth_ok_def alive_def pending_def boot_def)
  moreover have "0 \<le> MaxDepth (config (crawler (boot c t)))"
    using assms(2) i by (simp add: boot_def)
  ultimately have "depth_ok s" using assms(3) by (rule run_depth_ok [rotated])
  moreover from assms(3) have "config (crawler s) = config c"
    using run_config [of acts "boot c t" s] by (simp add: boot_def)
  ultimately have a: "\<forall>item \<in> set (alive s). depth item \<le> MaxDepth cfg"
    and m: "MaxDepth (config (crawler s)) = MaxDepth cfg"
    using i by (simp_all add: depth_ok_def)
  from a have "\<forall>item \<in> set (queue (crawler s)). depth item \<le> MaxDepth cfg"
    by (simp add: alive_def pending_def)
  moreover have "\<forall>item now. depth item = MaxDepth cfg \<longrightarrow>
          queue (processURL (crawler s) item now) = queue (crawler s)
        \<and> visited (processURL (crawler s) item now) = visited (crawler s)
        \<and> PagesQueued (stats (processURL (crawler s) item now)) = PagesQueued (stats (crawler s))"
    using processURL_at_depth_limit [of "crawler s"] m by simp
  ultimately show ?thesis using a by blast
qed

text \<open>With \<^verbatim>\<open>MaxDepth = 1\<close> on the small site: once the seed is processed the queue holds
  \<^verbatim>\<open>/about\<close> at depth 1, every item is within the limit, and processing \<^verbatim>\<open>/about\<close> adds
  nothing to the queue.\<close>

theorem depth_cap_witness:
  "(case Init shallow_config site_env of
      Inl e \<Rightarrow> False
    | Inr c \<Rightarrow>
        (case run first_page (boot c 0) of
           None \<Rightarrow> False
         | Some s \<Rightarrow>
             queue (crawler s) = [\<lparr>url = ''https://example.com/about'', depth = 1\<rparr>]
             \<and> list_all (\<lambda>item. depth item \<le> 1) (alive s)
             \<and> queue (processURL (crawler s) \<lparr>url = ''https://example.com/about'', depth = 1\<rparr> 7)
                 = queue (crawler s)))"
proof -
  have e: "(case Init shallow_config site_env of
      Inl e \<Rightarrow> False
    | Inr c \<Rightarrow>
        (case run first_page (boot c 0) of
           None \<Rightarrow> False
         | Some s \<Rightarrow> queue (crawler s) = [\<lparr>url = ''https://example.com/about'', depth = 1\<rparr>]))"
    by code_simp
  then obtain c where i: "Init shallow_config site_env = Inr c"
    by (auto split: sum.splits)
  with e obtain s where r: "run first_page (boot c 0) = Some s"
    and q: "queue (crawler s) = [\<lparr>url = ''https://example.com/about'', depth = 1\<rparr>]"
    by (auto split: option.splits)
  have m: "MaxDepth shallow_config = 1"
    by (simp add: shallow_config_def)
  from depth_cap [OF i _ r] m
  have "\<forall>item \<in> set (alive s). depth item \<le> 1"
    and "queue (processURL (crawler s) \<lparr>url = ''https://example.com/about'', depth = 1\<rparr> 7)
           = queue (crawler s)"
    by simp_all
  with i r q show ?thesis by (simp add: list_all_iff)
qed

section \<open>The fetcher selector\<close>

lemma enqueue_frame [simp]:
  "httpFetch (enqueue c rawURL d) = httpFetch c"
  "browFetch (enqueue c rawURL d) = browFetch c"
  "fetched (enqueue c rawURL d) = fetched c"
  "stopped (enqueue c rawURL d) = stopped c"
  "PagesCrawled (stats (enqueue c rawURL d)) = PagesCrawled (stats c)"
  by (cases "accepted c rawURL"; simp add: enqueue_rejected enqueue_accepted)+

lemma enqueueLinks_frame [simp]:
  "httpFetch (enqueueLinks c items d) = httpFetch c"
  "browFetch (enqueueLinks c items d) = browFetch c"
  "fetched (enqueueLinks c items d) = fetched c"
  "stopped (enqueueLinks c items d) = stopped c"
  "PagesCrawled (stats (enqueueLinks c items d)) = PagesCrawled (stats c)"
  by (rule enqueueLinks_preserves; simp)+

lemma Run_begin_frame [simp]:
  "httpFetch (Run_begin c now) = httpFetch c"
  "browFetch (Run_begin c now) = browFetch c"
  "fetched (Run_begin c now) = fetched c"
  "stopped (Run_begin c now) = stopped c"
  "PagesCrawled (stats (Run_begin c now)) = PagesCrawled (stats c)"
  by (simp_all add: Run_begin_def Let_def)


lemma Run_end_frame [simp]:
  "httpFetch (Run_end c now) = httpFetch c"
  "browFetch (Run_end c now) = browFetch c"
  "fetched (Run_end c now) = fetched c"
  "stopped (Run_end c now) = stopped c"
  "stats (Run_end c now) = stats c"
  "queue (Run_end c now) = queue c"
  "visited (Run_end c now) = visited c"
  by (simp_all add: Run_end_def Let_def Finalize_def split: option.splits prod.splits)










section \<open>The frontier under the steps of a crawl\<close>



lemma page_event_urls_emit:
  "page_event_urls (emit c ev) = page_event_urls c @ (if page_event ev then [URL_ev ev] else [])"
  by (simp add: page_event_urls_def)

lemma page_event_event [simp]:
  "page_event (event t u) = (t = EventPageStarted \<or> t = EventPageDone \<or> t = EventPageError)"
  "URL_ev (event t u) = u"
  by (simp_all add: page_event_def event_def)

lemma page_event_updates [simp]:
  "page_event (ev\<lparr>Message_ev := m\<rparr>) = page_event ev"
  "page_event (ev\<lparr>Error_ev := e\<rparr>) = page_event ev"
  "page_event (ev\<lparr>Stats_ev := st\<rparr>) = page_event ev"
  "page_event (ev\<lparr>Result_ev := r\<rparr>) = page_event ev"
  by (simp_all add: page_event_def)



























section \<open>Stopping a crawl\<close>


lemma processURL_return_stopped [simp]:
  "stopped (processURL_return c item fetchr now) = stopped c"
  by (cases rule: processURL_return_cases [of fetchr item c now]) simp_all






section \<open>After the loop of \<^verbatim>\<open>Run\<close>\<close>

text \<open>
  The defect in general. Once \<^verbatim>\<open>Run\<close> has left its loop, whatever the goroutines do, it
  stays at \<^verbatim>\<open>wg.Wait()\<close> or beyond, the queue only grows at its end, and the workers are
  workers that existed already: no item that is in the queue then, or enters it later, is
  ever given to a worker.
\<close>

lemma enqueueLinks_queue_grows: "\<exists>new. queue (enqueueLinks c items d) = queue c @ new"
proof (rule enqueueLinks_preserves)
  show "\<exists>new. queue c = queue c @ new" by simp
next
  fix c1 :: Crawler and rawURL
  assume "\<exists>new. queue c1 = queue c @ new"
  then show "\<exists>new. queue (enqueue c1 rawURL (d + 1)) = queue c @ new"
    using enqueue_queue_cases [of c1 rawURL "d + 1"] by auto
qed

lemma processURL_return_queue_grows:
  "\<exists>new. queue (processURL_return c item fetchr now) = queue c @ new"
proof (cases rule: processURL_return_cases [of fetchr item c now])
  case (error err)
  then show ?thesis by simp
next
  case (page pageData c3 ev)
  then show ?thesis
    using enqueueLinks_queue_grows [of c3 "ExtractAll (extractors c) pageData" "depth item"]
    by auto
qed

lemma step_after_the_loop:
  assumes "step a s = Some s1" and "pc s = RunWait \<or> pc s = RunDone"
  shows "(pc s1 = RunWait \<or> pc s1 = RunDone)
    \<and> (\<exists>new. queue (crawler s1) = queue (crawler s) @ new)
    \<and> set (spawned (workers s1) @ fetching (workers s1))
        \<subseteq> set (spawned (workers s) @ fetching (workers s))"
proof (cases a)
  case MainStep
  with assms have "step_main s = Some s1" by simp
  then show ?thesis using assms(2) by (cases rule: step_main_cases) simp_all
next
  case (WorkerStep i)
  with assms have "step_worker i s = Some s1" by simp
  then show ?thesis
  proof (cases rule: step_worker_cases)
    case (call A B item)
    with assms(2) show ?thesis by (auto simp add: processURL_call_eq)
  next
    case (return A B item fetchr)
    with assms(2) processURL_return_queue_grows [of "crawler s" item fetchr "clock s"]
    show ?thesis by auto
  qed
next
  case StopSignal
  with assms show ?thesis by (auto simp add: Stop_def)
next
  case ReceiveEvent
  with assms show ?thesis by (auto split: list.splits)
next
  case (Tick n)
  with assms show ?thesis by auto
qed

lemma queue_is_abandoned_after_the_loop:
  "run acts s = Some s1 \<Longrightarrow> pc s = RunWait \<or> pc s = RunDone \<Longrightarrow>
   (pc s1 = RunWait \<or> pc s1 = RunDone)
   \<and> (\<exists>new. queue (crawler s1) = queue (crawler s) @ new)
   \<and> set (spawned (workers s1) @ fetching (workers s1))
       \<subseteq> set (spawned (workers s) @ fetching (workers s))"
proof (induction acts arbitrary: s)
  case Nil
  then show ?case by simp
next
  case (Cons a acts)
  then obtain s2 where s2: "step a s = Some s2" "run acts s2 = Some s1"
    by (auto split: option.splits)
  from step_after_the_loop [OF s2(1) Cons.prems(2)]
  have a: "pc s2 = RunWait \<or> pc s2 = RunDone"
    and b: "\<exists>new. queue (crawler s2) = queue (crawler s) @ new"
    and c: "set (spawned (workers s2) @ fetching (workers s2))
        \<subseteq> set (spawned (workers s) @ fetching (workers s))"
    by blast+
  from Cons.IH [OF s2(2) a]
  have d: "pc s1 = RunWait \<or> pc s1 = RunDone"
    and e: "\<exists>new. queue (crawler s1) = queue (crawler s2) @ new"
    and f: "set (spawned (workers s1) @ fetching (workers s1))
        \<subseteq> set (spawned (workers s2) @ fetching (workers s2))"
    by blast+
  from b e have "\<exists>new. queue (crawler s1) = queue (crawler s) @ new" by auto
  with d c f show ?case by blast
qed

section \<open>The crawl-duration ceiling under the steps of a crawl\<close>

text \<open>
  No step of any goroutine reads \<^verbatim>\<open>CrawlDuration\<close>: a crawl started with another ceiling
  takes the same steps through the same states, which differ in that number only.
\<close>

lemma set_duration_fields [simp]:
  "httpFetch (set_duration d c) = httpFetch c"
  "browFetch (set_duration d c) = browFetch c"
  "extractors (set_duration d c) = extractors c"
  "writer (set_duration d c) = writer c"
  "events (set_duration d c) = events c"
  "visited (set_duration d c) = visited c"
  "queue (set_duration d c) = queue c"
  "stats (set_duration d c) = stats c"
  "startTime (set_duration d c) = startTime c"
  "stopped (set_duration d c) = stopped c"
  "fetched (set_duration d c) = fetched c"
  "emitted (set_duration d c) = emitted c"
  "MaxDepth (config (set_duration d c)) = MaxDepth (config c)"
  "MaxPages (config (set_duration d c)) = MaxPages (config c)"
  "Parallelism (config (set_duration d c)) = Parallelism (config c)"
  "TargetURL (config (set_duration d c)) = TargetURL (config c)"
  "AllowExternal (config (set_duration d c)) = AllowExternal (config c)"
  "FetcherMode (config (set_duration d c)) = FetcherMode (config c)"
  by (simp_all add: set_duration_def)

lemma emit_set_duration: "emit (set_duration d c) ev = set_duration d (emit c ev)"
  by (simp add: emit_def set_duration_def)

lemma enqueue_set_duration: "enqueue (set_duration d c) rawURL k = set_duration d (enqueue c rawURL k)"
proof (cases "accepted c rawURL")
  case True
  then have "accepted (set_duration d c) rawURL" by (simp add: accepted_def)
  with True show ?thesis
    by (simp add: enqueue_accepted) (simp add: set_duration_def emit_def)
next
  case False
  then have "\<not> accepted (set_duration d c) rawURL" by (simp add: accepted_def)
  with False show ?thesis by (simp add: enqueue_rejected)
qed

lemma enqueueLinks_set_duration:
  "enqueueLinks (set_duration d c) items k = set_duration d (enqueueLinks c items k)"
  by (induction items arbitrary: c) (simp_all add: enqueue_set_duration)

lemma chooseFetcher_set_duration [simp]: "chooseFetcher (set_duration d c) u = chooseFetcher c u"
  by (simp add: chooseFetcher_def split: option.splits)

lemma processURL_call_set_duration:
  "processURL_call (set_duration d c) item
     = (set_duration d (fst (processURL_call c item)), snd (processURL_call c item))"
  by (simp add: processURL_call_eq emit_set_duration) (simp add: set_duration_def)

lemma processURL_return_set_duration:
  "processURL_return (set_duration d c) item fetchr now
     = set_duration d (processURL_return c item fetchr now)"
proof (cases "Fetch fetchr (url item) (depth item)")
  case (Inl err)
  then show ?thesis
    by (simp add: processURL_return_def) (simp add: set_duration_def emit_def)
next
  case (Inr pageData)
  define items where "items = ExtractAll (extractors c) pageData"
  define st where "st = (stats c)
                     \<lparr>PagesCrawled := PagesCrawled (stats c) + 1,
                      ItemsExtracted := ItemsExtracted (stats c) + int (length items),
                      ItemsByType := countByType (ItemsByType (stats c)) items,
                      Elapsed := now - startTime c\<rparr>"
  define ev where "ev = (event EventPageDone (url item))
                     \<lparr>Result_ev := Some \<lparr>Page = pageData, ExtractedItems = items\<rparr>,
                      Stats_ev := Some st\<rparr>"
  define page_done where "page_done = (\<lambda>c :: Crawler.
     emit ((case writer c of
              None \<Rightarrow> c
            | Some w \<Rightarrow> c\<lparr>writer := Some (WriteResult w \<lparr>Page = pageData, ExtractedItems = items\<rparr>)\<rparr>)
           \<lparr>stats := st\<rparr>) ev)"
  have a: "processURL_return c item fetchr now =
      (if depth item < MaxDepth (config c) then enqueueLinks (page_done c) items (depth item)
       else page_done c)"
    using Inr unfolding processURL_return_def Let_def page_done_def ev_def st_def items_def getStats_def
    by (simp split: option.splits)
  have b: "processURL_return (set_duration d c) item fetchr now =
      (if depth item < MaxDepth (config c)
       then enqueueLinks (page_done (set_duration d c)) items (depth item)
       else page_done (set_duration d c))"
    using Inr unfolding processURL_return_def Let_def page_done_def ev_def st_def items_def getStats_def
    by (simp split: option.splits)
  have c: "page_done (set_duration d c) = set_duration d (page_done c)"
    unfolding page_done_def by (cases "writer c") (simp_all add: set_duration_def emit_def)
  show ?thesis by (simp add: a b c enqueueLinks_set_duration)
qed

lemma Run_begin_set_duration: "Run_begin (set_duration d c) now = set_duration d (Run_begin c now)"
proof -
  have "emit (set_duration d c\<lparr>startTime := now\<rparr>)
          ((event EventCrawlStarted (TargetURL (config c)))
             \<lparr>Message_ev := ''Starting crawl of '' @ TargetURL (config c)\<rparr>)
        = set_duration d (emit (c\<lparr>startTime := now\<rparr>)
          ((event EventCrawlStarted (TargetURL (config c)))
             \<lparr>Message_ev := ''Starting crawl of '' @ TargetURL (config c)\<rparr>))"
    by (simp add: set_duration_def emit_def)
  then show ?thesis
    by (simp add: Run_begin_def Let_def enqueue_set_duration)
qed

lemma Run_end_set_duration: "Run_end (set_duration d c) now = set_duration d (Run_end c now)"
  by (simp add: Run_end_def Let_def Finalize_def buildSummary_def getStats_def
      split: option.splits prod.splits)
     (simp add: set_duration_def emit_def)

lemma step_main_with_duration:
  "step_main (with_duration d s) = map_option (with_duration d) (step_main s)"
proof (cases "pc s")
  case RunStart
  then show ?thesis
    by (simp add: step_main_def with_duration_def Run_begin_set_duration)
next
  case RunLoop
  then show ?thesis
    by (cases "queue (crawler s)")
       (simp_all add: step_main_def with_duration_def dequeue_def set_duration_def)
next
  case (RunCheck item)
  then show ?thesis by (simp add: step_main_def with_duration_def isStopped_def)
next
  case (RunAcquire item)
  then show ?thesis by (simp add: step_main_def with_duration_def)
next
  case RunWait
  then show ?thesis by (simp add: step_main_def with_duration_def Run_end_set_duration)
next
  case RunDone
  then show ?thesis by (simp add: step_main_def with_duration_def)
next
  case RunPanic
  then show ?thesis by (simp add: step_main_def with_duration_def)
qed

lemma step_worker_with_duration:
  "step_worker i (with_duration d s) = map_option (with_duration d) (step_worker i s)"
proof (cases "i < length (workers s)")
  case False
  then show ?thesis by (simp add: step_worker_def with_duration_def)
next
  case True
  then show ?thesis
    by (cases "workers s ! i")
       (simp_all add: step_worker_def with_duration_def processURL_call_set_duration
          processURL_return_set_duration split: prod.splits)
qed

lemma step_with_duration:
  "step a (with_duration d s) = map_option (with_duration d) (step a s)"
proof (cases a)
  case MainStep
  then show ?thesis by (simp add: step_main_with_duration)
next
  case (WorkerStep i)
  then show ?thesis by (simp add: step_worker_with_duration)
next
  case StopSignal
  then show ?thesis by (simp add: with_duration_def Stop_def set_duration_def)
next
  case ReceiveEvent
  then show ?thesis
    by (cases "events (crawler s)") (simp_all add: with_duration_def set_duration_def)
next
  case (Tick n)
  then show ?thesis by (simp add: with_duration_def)
qed

lemma run_with_duration:
  "run acts (with_duration d s) = map_option (with_duration d) (run acts s)"
proof (induction acts arbitrary: s)
  case Nil
  show ?case by simp
next
  case (Cons a acts)
  show ?case
    by (cases "step a s") (simp_all add: step_with_duration Cons.IH)
qed

end
